theory Spec2Isabelle
  imports Complex_Main "HOL-Library.Word" "HOL-Library.Log_Nat"
begin

section \<open>Machine types and constants of servo.h\<close>

type_synonym u8 = "8 word"
type_synonym u16 = "16 word"
type_synonym u32 = "32 word"

definition MAX_SERVOS :: nat where
  "MAX_SERVOS = 8"

definition DEFAULT_SERVO_MIN_PULSE_US :: u16 where
  "DEFAULT_SERVO_MIN_PULSE_US = 1000"

definition DEFAULT_SERVO_MAX_PULSE_US :: u16 where
  "DEFAULT_SERVO_MAX_PULSE_US = 2000"

definition SERVO_PWM_FREQ_HZ :: u32 where
  "SERVO_PWM_FREQ_HZ = 50"

section \<open>Single-precision arithmetic\<close>

text \<open>
  The C type \<open>float\<close> is IEEE 754 binary32. A finite binary32 value is modelled by the
  rational number it denotes; every arithmetic operation of the source is the exact
  operation on rationals followed by \<open>f32_round\<close>, rounding to the nearest representable
  value with ties to the even significand (24 significant bits, least exponent \<open>-126\<close>,
  gradual underflow), as a target with \<open>FLT_EVAL_METHOD = 0\<close> evaluates it. All magnitudes
  that occur in servo.c stay below \<open>2 ^ 49\<close>, far from the overflow threshold \<open>2 ^ 128\<close>,
  so no infinity arises from rounding; the one division whose divisor may be zero is
  treated where it occurs.
\<close>

definition pow2 :: "int \<Rightarrow> rat" where
  "pow2 k = (if 0 \<le> k then 2 ^ nat k else 1 / 2 ^ nat (- k))"

text \<open>\<open>ilog2 x\<close> is the integer \<open>e\<close> with \<open>2 ^ e \<le> x < 2 ^ (e + 1)\<close>, for \<open>x > 0\<close>.\<close>

definition ilog2 :: "rat \<Rightarrow> int" where
  "ilog2 x = (let (p, q) = quotient_of x; d = bitlen p - bitlen q
              in if pow2 d \<le> x then d else d - 1)"

text \<open>Nearest integer, ties to even.\<close>

definition rne :: "rat \<Rightarrow> int" where
  "rne x = (let f = \<lfloor>x\<rfloor>; r = x - of_int f
            in if r < 1 / 2 then f
               else if 1 / 2 < r then f + 1
               else if even f then f else f + 1)"

text \<open>The exponent of the unit in the last place of the binade of \<open>x\<close>.\<close>

definition f32_qexp :: "rat \<Rightarrow> int" where
  "f32_qexp x = max (ilog2 \<bar>x\<bar>) (- 126) - 23"

definition f32_round :: "rat \<Rightarrow> rat" where
  "f32_round x = (if x = 0 then 0
                  else of_int (rne (x / pow2 (f32_qexp x))) * pow2 (f32_qexp x))"

definition f32_add :: "rat \<Rightarrow> rat \<Rightarrow> rat" where
  "f32_add a b = f32_round (a + b)"

definition f32_sub :: "rat \<Rightarrow> rat \<Rightarrow> rat" where
  "f32_sub a b = f32_round (a - b)"

definition f32_mul :: "rat \<Rightarrow> rat \<Rightarrow> rat" where
  "f32_mul a b = f32_round (a * b)"

text \<open>Division by a non-zero divisor; the callers test the divisor first.\<close>

definition f32_div :: "rat \<Rightarrow> rat \<Rightarrow> rat" where
  "f32_div a b = f32_round (a / b)"

text \<open>Conversion of an integer value to \<open>float\<close>, as in \<open>(float)sys_clk_hz\<close>.\<close>

definition f32_of_int :: "int \<Rightarrow> rat" where
  "f32_of_int n = f32_round (of_int n)"

text \<open>
  The cast \<open>(uint16_t)x\<close> of a \<open>float\<close>: the fractional part is discarded (truncation
  toward zero). When the integral part is not representable in \<open>uint16_t\<close> the C standard
  defines no result (C11 6.3.1.4); \<open>f32_to_u16\<close> is \<open>None\<close> there.
\<close>

definition trunc0 :: "rat \<Rightarrow> int" where
  "trunc0 x = (if 0 \<le> x then \<lfloor>x\<rfloor> else - \<lfloor>- x\<rfloor>)"

definition f32_to_u16 :: "rat \<Rightarrow> u16 option" where
  "f32_to_u16 x = (let t = trunc0 x
                   in if 0 \<le> t \<and> t \<le> 65535 then Some (word_of_int t) else None)"

text \<open>
  The program does not stop at such a cast: it goes on with whatever the conversion left
  in the \<open>uint16_t\<close>. Where that value is tested, returned or stored, the model takes it
  from the platform: \<open>ovf t\<close> is the \<open>uint16_t\<close> that the platform's conversion yields for
  an integral part \<open>t\<close> outside \<open>0 .. 65535\<close>. With the arm-none-eabi toolchain of the
  RP2040 that is the low 16 bits of \<open>t\<close> (\<open>low16\<close>), for \<open>t\<close> from 65536 up to \<open>2 ^ 31\<close>.
  The theorems below hold for every \<open>ovf\<close>.
\<close>

definition cast_u16 :: "(int \<Rightarrow> u16) \<Rightarrow> rat \<Rightarrow> u16" where
  "cast_u16 ovf x = (case f32_to_u16 x of Some w \<Rightarrow> w | None \<Rightarrow> ovf (trunc0 x))"

definition low16 :: "int \<Rightarrow> u16" where
  "low16 t = word_of_int t"

section \<open>PWM parameters: \<open>calculate_pwm_params\<close>\<close>

text \<open>
  The result of \<open>calculate_pwm_params freq_hz\<close>, with the value \<open>sys_clk_hz\<close> that
  \<open>clock_get_hz(clk_sys)\<close> returned and the conversion \<open>ovf\<close> of the platform:
  \<^item> \<open>None\<close>: the function returns \<open>false\<close>;
  \<^item> \<open>Some (wrap_val, clk_div_int, clk_div_frac)\<close>: it returns \<open>true\<close> with these values
    stored through its three pointers.
\<close>

definition MAX_DIVIDER :: rat where
  "MAX_DIVIDER = f32_add 255 (f32_div 15 16)"

text \<open>
  The body of the function is split at its named values: the divider as first computed
  (\<open>(float)sys_clk_hz / (freq_hz * 65536.0f)\<close>, for a non-zero divisor), the effective
  divider rebuilt from the two stored parts, and the quotient from which the wrap value
  is taken.
\<close>

definition ideal_divider :: "u32 \<Rightarrow> u32 \<Rightarrow> rat" where
  "ideal_divider sys_clk_hz freq_hz =
     f32_div (f32_of_int (uint sys_clk_hz)) (f32_mul (f32_of_int (uint freq_hz)) 65536)"

text \<open>The divider after \<open>if (divider < 1.0f) divider = 1.0f\<close>.\<close>

definition clamped_divider :: "u32 \<Rightarrow> u32 \<Rightarrow> rat" where
  "clamped_divider sys_clk_hz freq_hz =
     (if ideal_divider sys_clk_hz freq_hz < 1 then 1 else ideal_divider sys_clk_hz freq_hz)"

definition effective_divider :: "u16 \<Rightarrow> u16 \<Rightarrow> rat" where
  "effective_divider clk_div_int clk_div_frac =
     f32_add (f32_of_int (uint clk_div_int)) (f32_div (f32_of_int (uint clk_div_frac)) 16)"

definition wrap_quotient :: "u32 \<Rightarrow> u32 \<Rightarrow> u16 \<Rightarrow> u16 \<Rightarrow> rat" where
  "wrap_quotient sys_clk_hz freq_hz clk_div_int clk_div_frac =
     f32_div (f32_of_int (uint sys_clk_hz))
             (f32_mul (effective_divider clk_div_int clk_div_frac) (f32_of_int (uint freq_hz)))"

text \<open>The two parts of the divider, as the function stores them.\<close>

definition clk_div_int_of :: "(int \<Rightarrow> u16) \<Rightarrow> u32 \<Rightarrow> u32 \<Rightarrow> u16" where
  "clk_div_int_of ovf sys_clk_hz freq_hz = cast_u16 ovf (clamped_divider sys_clk_hz freq_hz)"

definition clk_div_frac_of :: "(int \<Rightarrow> u16) \<Rightarrow> u32 \<Rightarrow> u32 \<Rightarrow> u16" where
  "clk_div_frac_of ovf sys_clk_hz freq_hz =
     cast_u16 ovf
       (f32_mul (f32_sub (clamped_divider sys_clk_hz freq_hz)
                         (f32_of_int (uint (clk_div_int_of ovf sys_clk_hz freq_hz)))) 16)"

text \<open>The quotient \<open>(float)sys_clk_hz / (effective_divider * freq_hz)\<close> of these two parts.\<close>

definition wrap_quotient_of :: "(int \<Rightarrow> u16) \<Rightarrow> u32 \<Rightarrow> u32 \<Rightarrow> rat" where
  "wrap_quotient_of ovf sys_clk_hz freq_hz =
     wrap_quotient sys_clk_hz freq_hz (clk_div_int_of ovf sys_clk_hz freq_hz)
                                      (clk_div_frac_of ovf sys_clk_hz freq_hz)"

definition calculate_pwm_params ::
    "(int \<Rightarrow> u16) \<Rightarrow> u32 \<Rightarrow> u32 \<Rightarrow> (u16 \<times> u16 \<times> u16) option" where
  "calculate_pwm_params ovf sys_clk_hz freq_hz =
    (if sys_clk_hz = 0 then None
     else if f32_mul (f32_of_int (uint freq_hz)) 65536 = 0
     then None \<comment> \<open>positive / 0.0f is +infinity, above MAX_DIVIDER\<close>
     else
       let divider0 = ideal_divider sys_clk_hz freq_hz;
           divider = (if divider0 < 1 then 1 else divider0)
       in if MAX_DIVIDER < divider then None
          else
            let clk_div_int = cast_u16 ovf divider;
                clk_div_frac =
                  cast_u16 ovf (f32_mul (f32_sub divider (f32_of_int (uint clk_div_int))) 16);
                wrap_val =
                  cast_u16 ovf
                    (f32_sub (wrap_quotient sys_clk_hz freq_hz clk_div_int clk_div_frac) 1)
            in if wrap_val = 0 \<or> 65535 < uint wrap_val
               then (if wrap_val = 0 then None
                     else Some (65535, clk_div_int, clk_div_frac))
               else Some (wrap_val, clk_div_int, clk_div_frac))"

section \<open>The registry\<close>

record servo_info =
  gpio_num :: u16
  slice_num :: u16
  chan_num :: u16
  wrap_val :: u16
  min_pulse_us :: u16
  max_pulse_us :: u16
  is_initialized :: bool
  is_attached :: bool

text \<open>An entry after \<open>memset(servo_state, 0, sizeof(servo_state))\<close>.\<close>

definition zero_servo :: servo_info where
  "zero_servo = \<lparr>gpio_num = 0, slice_num = 0, chan_num = 0, wrap_val = 0,
                 min_pulse_us = 0, max_pulse_us = 0,
                 is_initialized = False, is_attached = False\<rparr>"

section \<open>Angle to level: \<open>angle_to_level\<close>\<close>

text \<open>
  The pointer argument is an option (\<open>None\<close> is the null pointer). The result is \<open>None\<close>
  when the cast to \<open>uint16_t\<close> is out of range, so that the level has no defined value.
  The level decides no branch of the driver and is not stored: it is only handed to
  \<open>pwm_set_gpio_level\<close>, and the calling operation returns what it returns for any level.
\<close>

definition pulse_us :: "u8 \<Rightarrow> servo_info \<Rightarrow> rat" where
  "pulse_us angle sv =
     f32_add (f32_of_int (uint (min_pulse_us sv)))
             (f32_mul (f32_div (f32_of_int (uint angle)) 180)
                      (f32_of_int (uint (max_pulse_us sv) - uint (min_pulse_us sv))))"

definition period_us :: rat where
  "period_us = f32_div 1000000 (f32_of_int (uint SERVO_PWM_FREQ_HZ))"

text \<open>The float value that is cast to \<open>uint16_t\<close>.\<close>

definition level_f32 :: "u8 \<Rightarrow> servo_info \<Rightarrow> rat" where
  "level_f32 angle sv =
     f32_mul (f32_div (pulse_us angle sv) period_us) (f32_of_int (uint (wrap_val sv) + 1))"

definition angle_to_level :: "u8 \<Rightarrow> servo_info option \<Rightarrow> u16 option" where
  "angle_to_level angle servo =
    (case servo of
       None \<Rightarrow> Some 0
     | Some sv \<Rightarrow>
         if \<not> is_initialized sv then Some 0
         else
           let angle' = (if 180 < angle then 180 else angle)
           in (case f32_to_u16 (level_f32 angle' sv) of
                 None \<Rightarrow> None
               | Some level \<Rightarrow> Some (if wrap_val sv < level then wrap_val sv else level)))"

section \<open>The hardware interface\<close>

text \<open>
  The vendor calls are outside servo.c. The three queries the driver makes are parameters
  of the model (a record \<open>hal\<close>, which also holds the platform's conversion \<open>ovf\<close> of
  out-of-range casts); the commands it issues are recorded, in order, in the trace
  \<open>hw_calls\<close> of the state.
\<close>

record hal =
  clock_get_hz :: u32
  pwm_gpio_to_slice_num :: "u32 \<Rightarrow> u32"
  pwm_gpio_to_channel :: "u32 \<Rightarrow> u32"
  cast_u16_overflow :: "int \<Rightarrow> u16"

datatype hw_call =
    Gpio_set_function_pwm u16
  | Pwm_init u16 u16 u16 u16 bool
  | Pwm_set_enabled u16 bool
  | Pwm_set_gpio_level u16 "u16 option"

text \<open>
  \<open>Pwm_init slice wrap div_int div_frac start\<close> stands for the default configuration with
  \<open>pwm_config_set_wrap\<close> and \<open>pwm_config_set_clkdiv_int_frac\<close> applied, passed to
  \<open>pwm_init\<close>. The level of \<open>Pwm_set_gpio_level\<close> is the result of \<open>angle_to_level\<close>, \<open>None\<close>
  when that has no defined value.
\<close>

record driver_state =
  servo_state :: "servo_info list"
  servo_state_initialized :: bool
  hw_calls :: "hw_call list"

text \<open>The state at program start: static storage is zeroed, nothing has been called.\<close>

definition boot_state :: driver_state where
  "boot_state = \<lparr>servo_state = replicate MAX_SERVOS zero_servo,
                  servo_state_initialized = False, hw_calls = []\<rparr>"

definition initialize_servo_state :: "driver_state \<Rightarrow> driver_state" where
  "initialize_servo_state s =
    (if \<not> servo_state_initialized s
     then s\<lparr>servo_state := replicate MAX_SERVOS zero_servo, servo_state_initialized := True\<rparr>
     else s)"

function find_servo_index_loop :: "servo_info list \<Rightarrow> u16 \<Rightarrow> nat \<Rightarrow> int" where
  "find_servo_index_loop st g i =
    (if i < MAX_SERVOS
     then (if is_initialized (st ! i) \<and> gpio_num (st ! i) = g then int i
           else find_servo_index_loop st g (i + 1))
     else - 1)"
  by pat_completeness auto
termination
  by (relation "measure (\<lambda>(st, g, i). MAX_SERVOS - i)") auto

definition find_servo_index :: "u16 \<Rightarrow> driver_state \<Rightarrow> int \<times> driver_state" where
  "find_servo_index g s =
    (let s' = initialize_servo_state s in (find_servo_index_loop (servo_state s') g 0, s'))"

function find_free_index_loop :: "servo_info list \<Rightarrow> nat \<Rightarrow> int" where
  "find_free_index_loop st i =
    (if i < MAX_SERVOS
     then (if \<not> is_initialized (st ! i) then int i else find_free_index_loop st (i + 1))
     else - 1)"
  by pat_completeness auto
termination
  by (relation "measure (\<lambda>(st, i). MAX_SERVOS - i)") auto

definition find_free_index :: "driver_state \<Rightarrow> int \<times> driver_state" where
  "find_free_index s =
    (let s' = initialize_servo_state s in (find_free_index_loop (servo_state s') 0, s'))"

section \<open>The public operations\<close>

text \<open>Each operation returns the C return value and the new state.\<close>

definition servo_init ::
    "hal \<Rightarrow> u16 \<Rightarrow> u16 \<Rightarrow> u16 \<Rightarrow> driver_state \<Rightarrow> bool \<times> driver_state" where
  "servo_init h g min_us max_us s =
    (let s0 = initialize_servo_state s;
         (index, s1) = find_free_index s0
     in if index = - 1 then (False, s1)
        else
          let (found, s2) = find_servo_index g s1
          in if found \<noteq> - 1 then (False, s2)
             else if min_us = 0 \<or> max_us = 0 \<or> max_us \<le> min_us then (False, s2)
             else
               let slice = (ucast (pwm_gpio_to_slice_num h (ucast g)) :: u16);
                   chan = (ucast (pwm_gpio_to_channel h (ucast g)) :: u16)
               in (case calculate_pwm_params (cast_u16_overflow h) (clock_get_hz h)
                          SERVO_PWM_FREQ_HZ of
                     None \<Rightarrow> (False, s2)
                   | Some (wrap, clk_div_int, clk_div_frac) \<Rightarrow>
                       let servo = \<lparr>gpio_num = g, slice_num = slice, chan_num = chan,
                                    wrap_val = wrap, min_pulse_us = min_us,
                                    max_pulse_us = max_us,
                                    is_initialized = True, is_attached = True\<rparr>;
                           s3 = s2\<lparr>servo_state := (servo_state s2)[nat index := servo],
                                   hw_calls := hw_calls s2 @
                                     [Gpio_set_function_pwm g,
                                      Pwm_init slice wrap clk_div_int clk_div_frac True]\<rparr>;
                           initial_level = angle_to_level 0 (Some (servo_state s3 ! nat index))
                       in (True, s3\<lparr>hw_calls := hw_calls s3 @
                                     [Pwm_set_gpio_level g initial_level]\<rparr>)))"

definition servo_init_default :: "hal \<Rightarrow> u16 \<Rightarrow> driver_state \<Rightarrow> bool \<times> driver_state" where
  "servo_init_default h g s =
     servo_init h g DEFAULT_SERVO_MIN_PULSE_US DEFAULT_SERVO_MAX_PULSE_US s"

definition servo_set :: "u16 \<Rightarrow> u8 \<Rightarrow> driver_state \<Rightarrow> bool \<times> driver_state" where
  "servo_set g angle s =
    (let (index, s1) = find_servo_index g s
     in if index = - 1 then (False, s1)
        else
          let servo = servo_state s1 ! nat index;
              s2 = (if \<not> is_attached servo
                    then s1\<lparr>servo_state :=
                              (servo_state s1)[nat index := servo\<lparr>is_attached := True\<rparr>],
                            hw_calls := hw_calls s1 @ [Pwm_set_enabled (slice_num servo) True]\<rparr>
                    else s1);
              servo' = servo_state s2 ! nat index;
              level = angle_to_level angle (Some servo')
          in (True, s2\<lparr>hw_calls := hw_calls s2 @
                          [Pwm_set_gpio_level (gpio_num servo') level]\<rparr>))"

definition servo_detach :: "u16 \<Rightarrow> driver_state \<Rightarrow> bool \<times> driver_state" where
  "servo_detach g s =
    (let (index, s1) = find_servo_index g s
     in if index = - 1 then (False, s1)
        else
          let servo = servo_state s1 ! nat index
          in if \<not> is_attached servo then (True, s1)
             else (True, s1\<lparr>servo_state :=
                              (servo_state s1)[nat index := servo\<lparr>is_attached := False\<rparr>],
                            hw_calls := hw_calls s1 @
                              [Pwm_set_enabled (slice_num servo) False]\<rparr>))"

definition servo_attach :: "u16 \<Rightarrow> driver_state \<Rightarrow> bool \<times> driver_state" where
  "servo_attach g s =
    (let (index, s1) = find_servo_index g s
     in if index = - 1 then (False, s1)
        else
          let servo = servo_state s1 ! nat index
          in if is_attached servo then (True, s1)
             else (True, s1\<lparr>servo_state :=
                              (servo_state s1)[nat index := servo\<lparr>is_attached := True\<rparr>],
                            hw_calls := hw_calls s1 @
                              [Pwm_set_enabled (slice_num servo) True]\<rparr>))"

section \<open>Call sequences\<close>

text \<open>A client of servo.h issues a sequence of calls; \<open>run\<close> collects their return values.\<close>

datatype servo_call =
    Init u16 u16 u16
  | Init_default u16
  | Set u16 u8
  | Detach u16
  | Attach u16

fun exec :: "hal \<Rightarrow> servo_call \<Rightarrow> driver_state \<Rightarrow> bool \<times> driver_state" where
  "exec h (Init g min_us max_us) s = servo_init h g min_us max_us s"
| "exec h (Init_default g) s = servo_init_default h g s"
| "exec h (Set g angle) s = servo_set g angle s"
| "exec h (Detach g) s = servo_detach g s"
| "exec h (Attach g) s = servo_attach g s"

fun run :: "hal \<Rightarrow> servo_call list \<Rightarrow> driver_state \<Rightarrow> bool list \<times> driver_state" where
  "run h [] s = ([], s)"
| "run h (c # cs) s =
     (let (r, s') = exec h c s; (rs, s'') = run h cs s' in (r # rs, s''))"

section \<open>Predicates on the registry\<close>

text \<open>
  Pin \<open>g\<close> is registered when a lookup will find it: the table has been set up and one of
  its \<open>MAX_SERVOS\<close> slots is initialized with that pin.
\<close>

definition registered :: "u16 \<Rightarrow> driver_state \<Rightarrow> bool" where
  "registered g s \<longleftrightarrow>
     servo_state_initialized s \<and>
     (\<exists>k\<in>{0..<MAX_SERVOS}.
        is_initialized (servo_state s ! k) \<and> gpio_num (servo_state s ! k) = g)"

text \<open>The slot that the lookup of pin \<open>g\<close> resolves to, and its entry.\<close>

definition servo_slot :: "u16 \<Rightarrow> driver_state \<Rightarrow> nat" where
  "servo_slot g s = nat (fst (find_servo_index g s))"

definition servo_entry :: "u16 \<Rightarrow> driver_state \<Rightarrow> servo_info" where
  "servo_entry g s = servo_state s ! servo_slot g s"

text \<open>
  The registry invariant: the table has \<open>MAX_SERVOS\<close> slots, so at most that many entries
  are initialized, and initialized entries have pairwise distinct pins.
\<close>

definition registry_inv :: "driver_state \<Rightarrow> bool" where
  "registry_inv s \<longleftrightarrow>
     length (servo_state s) = MAX_SERVOS \<and>
     length (filter is_initialized (servo_state s)) \<le> MAX_SERVOS \<and>
     (\<forall>i\<in>{0..<MAX_SERVOS}. \<forall>j\<in>{0..<MAX_SERVOS}.
        i \<noteq> j \<and> is_initialized (servo_state s ! i) \<and> is_initialized (servo_state s ! j)
        \<longrightarrow> gpio_num (servo_state s ! i) \<noteq> gpio_num (servo_state s ! j))"

text \<open>Static storage: until the first access sets the flag, the table is all zero.\<close>

definition static_zeroed :: "driver_state \<Rightarrow> bool" where
  "static_zeroed s \<longleftrightarrow>
     (\<not> servo_state_initialized s \<longrightarrow> servo_state s = replicate MAX_SERVOS zero_servo)"

text \<open>Every slot is taken.\<close>

definition registry_full :: "driver_state \<Rightarrow> bool" where
  "registry_full s \<longleftrightarrow>
     servo_state_initialized s \<and>
     (\<forall>k\<in>{0..<MAX_SERVOS}. is_initialized (servo_state s ! k))"

text \<open>The slot that \<open>servo_init\<close> claims: the first free one.\<close>

definition free_slot :: "driver_state \<Rightarrow> nat" where
  "free_slot s = nat (fst (find_free_index s))"

text \<open>The entry that \<open>servo_init\<close> stores for pin \<open>g\<close>.\<close>

definition new_servo :: "hal \<Rightarrow> u16 \<Rightarrow> u16 \<Rightarrow> u16 \<Rightarrow> u16 \<Rightarrow> servo_info" where
  "new_servo h g wrap min_us max_us =
     \<lparr>gpio_num = g,
      slice_num = ucast (pwm_gpio_to_slice_num h (ucast g)),
      chan_num = ucast (pwm_gpio_to_channel h (ucast g)),
      wrap_val = wrap, min_pulse_us = min_us, max_pulse_us = max_us,
      is_initialized = True, is_attached = True\<rparr>"

section \<open>The formulas of the specification\<close>

text \<open>
  Definitions that follow the words of the specification, in exact arithmetic, to be
  compared with the functions above. \<open>round\<close> is the nearest integer.

  \<^item> The ideal divider: \<open>systemClockHz / (targetFrequencyHz * 65536)\<close>.
  \<^item> The wrap value: \<open>round(systemClockHz / (effectiveDivider * targetFrequencyHz)) - 1\<close>,
    the effective divider being \<open>dividerInt + dividerFrac / 16\<close>, clamped to 65535.
  \<^item> The level: \<open>round(pulseUs / periodUs * (wrapValue + 1))\<close> with
    \<open>pulseUs = minPulseUs + (angle / 180) * (maxPulseUs - minPulseUs)\<close>, the angle
    saturated at 180, \<open>periodUs = 1,000,000 / 50\<close>, clamped to \<open>wrapValue\<close>.
\<close>

definition spec_ideal_divider :: "int \<Rightarrow> int \<Rightarrow> rat" where
  "spec_ideal_divider sys_clk_hz freq_hz = of_int sys_clk_hz / (of_int freq_hz * 65536)"


definition spec_level :: "int \<Rightarrow> int \<Rightarrow> int \<Rightarrow> int \<Rightarrow> int" where
  "spec_level angle min_us max_us wrap =
     (let pulse = (of_int min_us :: rat) +
                  (of_int (min angle 180) / 180) * (of_int max_us - of_int min_us);
          period = (1000000 :: rat) / 50
      in min wrap (round (pulse / period * (of_int wrap + 1))))"

text \<open>Concrete states and a concrete platform, for evaluation.\<close>

definition demo_hal :: "u32 \<Rightarrow> hal" where
  "demo_hal clk = \<lparr>clock_get_hz = clk,
                    pwm_gpio_to_slice_num = (\<lambda>g. drop_bit 1 g mod 8),
                    pwm_gpio_to_channel = (\<lambda>g. g mod 2),
                    cast_u16_overflow = low16\<rparr>"

definition demo_servo :: "u16 \<Rightarrow> u16 \<Rightarrow> u16 \<Rightarrow> u16 \<Rightarrow> bool \<Rightarrow> servo_info" where
  "demo_servo g wrap min_us max_us att =
     \<lparr>gpio_num = g, slice_num = drop_bit 1 g mod 8, chan_num = g mod 2, wrap_val = wrap,
      min_pulse_us = min_us, max_pulse_us = max_us,
      is_initialized = True, is_attached = att\<rparr>"

definition demo_state :: "servo_info list \<Rightarrow> driver_state" where
  "demo_state svs =
     \<lparr>servo_state = svs @ replicate (MAX_SERVOS - length svs) zero_servo,
      servo_state_initialized = True, hw_calls = []\<rparr>"

definition full_state :: driver_state where
  "full_state = demo_state (map (\<lambda>g. demo_servo g 19999 1000 2000 True) [0, 1, 2, 3, 4, 5, 6, 7])"

section \<open>Lookup\<close>

declare find_servo_index_loop.simps [simp del]
declare find_free_index_loop.simps [simp del]

lemma find_servo_index_loop_miss:
  "find_servo_index_loop st g i = - 1 \<longleftrightarrow>
     (\<forall>k. i \<le> k \<and> k < MAX_SERVOS \<longrightarrow> \<not> (is_initialized (st ! k) \<and> gpio_num (st ! k) = g))"
proof (induction st g i rule: find_servo_index_loop.induct)
  case (1 st g i)
  show ?case
  proof (cases "i < MAX_SERVOS")
    case False
    then show ?thesis by (auto simp: find_servo_index_loop.simps [of st g i])
  next
    case True
    show ?thesis
    proof (cases "is_initialized (st ! i) \<and> gpio_num (st ! i) = g")
      case hit: True
      with True show ?thesis
        by (auto simp: find_servo_index_loop.simps [of st g i])
    next
      case miss: False
      have "(\<forall>k. i \<le> k \<and> k < MAX_SERVOS \<longrightarrow> \<not> (is_initialized (st ! k) \<and> gpio_num (st ! k) = g))
            \<longleftrightarrow> (\<forall>k. i + 1 \<le> k \<and> k < MAX_SERVOS \<longrightarrow> \<not> (is_initialized (st ! k) \<and> gpio_num (st ! k) = g))"
        using miss by (metis Suc_eq_plus1 Suc_leI le_eq_less_or_eq add_leD1 order_refl)
      moreover have "find_servo_index_loop st g i = find_servo_index_loop st g (i + 1)"
        using True miss by (auto simp: find_servo_index_loop.simps [of st g i])
      moreover have "find_servo_index_loop st g (i + 1) = - 1 \<longleftrightarrow>
          (\<forall>k. i + 1 \<le> k \<and> k < MAX_SERVOS \<longrightarrow> \<not> (is_initialized (st ! k) \<and> gpio_num (st ! k) = g))"
        using 1 True miss by blast
      ultimately show ?thesis by presburger
    qed
  qed
qed

lemma find_servo_index_loop_hit:
  "find_servo_index_loop st g i \<noteq> - 1 \<Longrightarrow>
     \<exists>k. find_servo_index_loop st g i = int k \<and> i \<le> k \<and> k < MAX_SERVOS \<and>
         is_initialized (st ! k) \<and> gpio_num (st ! k) = g"
proof (induction st g i rule: find_servo_index_loop.induct)
  case (1 st g i)
  show ?case
  proof (cases "i < MAX_SERVOS")
    case False
    with 1(2) show ?thesis by (simp add: find_servo_index_loop.simps [of st g i])
  next
    case True
    show ?thesis
    proof (cases "is_initialized (st ! i) \<and> gpio_num (st ! i) = g")
      case hit: True
      with True show ?thesis
        by (auto simp: find_servo_index_loop.simps [of st g i])
    next
      case miss: False
      with True 1(2) have "find_servo_index_loop st g (i + 1) \<noteq> - 1"
        by (auto simp: find_servo_index_loop.simps [of st g i])
      with 1(1) True miss obtain k where
        "find_servo_index_loop st g (i + 1) = int k" "i + 1 \<le> k" "k < MAX_SERVOS"
        "is_initialized (st ! k)" "gpio_num (st ! k) = g"
        by blast
      with True miss show ?thesis
        by (auto simp: find_servo_index_loop.simps [of st g i])
    qed
  qed
qed

lemma find_free_index_loop_miss:
  "find_free_index_loop st i = - 1 \<longleftrightarrow>
     (\<forall>k. i \<le> k \<and> k < MAX_SERVOS \<longrightarrow> is_initialized (st ! k))"
proof (induction st i rule: find_free_index_loop.induct)
  case (1 st i)
  show ?case
  proof (cases "i < MAX_SERVOS")
    case False
    then show ?thesis by (auto simp: find_free_index_loop.simps [of st i])
  next
    case True
    show ?thesis
    proof (cases "is_initialized (st ! i)")
      case free: False
      with True show ?thesis
        by (auto simp: find_free_index_loop.simps [of st i])
    next
      case used: True
      have "(\<forall>k. i \<le> k \<and> k < MAX_SERVOS \<longrightarrow> is_initialized (st ! k))
            \<longleftrightarrow> (\<forall>k. i + 1 \<le> k \<and> k < MAX_SERVOS \<longrightarrow> is_initialized (st ! k))"
        using used by (metis Suc_eq_plus1 Suc_leI le_eq_less_or_eq add_leD1 order_refl)
      moreover have "find_free_index_loop st i = find_free_index_loop st (i + 1)"
        using True used by (simp add: find_free_index_loop.simps [of st i])
      moreover have "find_free_index_loop st (i + 1) = - 1 \<longleftrightarrow>
          (\<forall>k. i + 1 \<le> k \<and> k < MAX_SERVOS \<longrightarrow> is_initialized (st ! k))"
        using 1 True used by blast
      ultimately show ?thesis by presburger
    qed
  qed
qed

lemma find_free_index_loop_hit:
  "find_free_index_loop st i \<noteq> - 1 \<Longrightarrow>
     \<exists>k. find_free_index_loop st i = int k \<and> i \<le> k \<and> k < MAX_SERVOS \<and>
         \<not> is_initialized (st ! k)"
proof (induction st i rule: find_free_index_loop.induct)
  case (1 st i)
  show ?case
  proof (cases "i < MAX_SERVOS")
    case False
    with 1(2) show ?thesis by (simp add: find_free_index_loop.simps [of st i])
  next
    case True
    show ?thesis
    proof (cases "is_initialized (st ! i)")
      case free: False
      with True show ?thesis
        by (auto simp: find_free_index_loop.simps [of st i])
    next
      case used: True
      with True 1(2) have "find_free_index_loop st (i + 1) \<noteq> - 1"
        by (simp add: find_free_index_loop.simps [of st i])
      with 1(1) True used obtain k where
        "find_free_index_loop st (i + 1) = int k" "i + 1 \<le> k" "k < MAX_SERVOS"
        "\<not> is_initialized (st ! k)"
        by blast
      with True used show ?thesis
        by (auto simp: find_free_index_loop.simps [of st i])
    qed
  qed
qed


lemma zero_servo_not_initialized: "\<not> is_initialized zero_servo"
  by (simp add: zero_servo_def)

lemma initialize_servo_state_idem:
  "servo_state_initialized s \<Longrightarrow> initialize_servo_state s = s"
  by (simp add: initialize_servo_state_def)

lemma find_servo_index_snd: "snd (find_servo_index g s) = initialize_servo_state s"
  by (simp add: find_servo_index_def Let_def)

lemma find_servo_index_miss_iff:
  "fst (find_servo_index g s) = - 1 \<longleftrightarrow> \<not> registered g s"
proof (cases "servo_state_initialized s")
  case True
  then show ?thesis
    by (auto simp: find_servo_index_def Let_def initialize_servo_state_def registered_def
        find_servo_index_loop_miss)
next
  case False
  then show ?thesis
    by (auto simp: find_servo_index_def Let_def initialize_servo_state_def registered_def
        find_servo_index_loop_miss zero_servo_not_initialized)
qed

lemma find_servo_index_registered:
  assumes "registered g s"
  shows "find_servo_index g s = (int (servo_slot g s), s) \<and> servo_slot g s < MAX_SERVOS \<and>
         is_initialized (servo_entry g s) \<and> gpio_num (servo_entry g s) = g"
proof -
  from assms have fl: "servo_state_initialized s" by (simp add: registered_def)
  then have st: "find_servo_index g s = (find_servo_index_loop (servo_state s) g 0, s)"
    by (simp add: find_servo_index_def Let_def initialize_servo_state_def)
  from assms have "fst (find_servo_index g s) \<noteq> - 1"
    by (simp add: find_servo_index_miss_iff)
  with st have "find_servo_index_loop (servo_state s) g 0 \<noteq> - 1" by simp
  from find_servo_index_loop_hit [OF this] obtain k where
    k: "find_servo_index_loop (servo_state s) g 0 = int k" "k < MAX_SERVOS"
       "is_initialized (servo_state s ! k)" "gpio_num (servo_state s ! k) = g"
    by blast
  with st have "servo_slot g s = k" by (simp add: servo_slot_def)
  with k st show ?thesis by (simp add: servo_entry_def)
qed

lemma servo_detach_unregistered:
  "\<not> registered g s \<Longrightarrow> servo_detach g s = (False, initialize_servo_state s)"
  using find_servo_index_miss_iff [of g s] find_servo_index_snd [of g s]
  by (cases "find_servo_index g s") (simp add: servo_detach_def)

lemma servo_attach_unregistered:
  "\<not> registered g s \<Longrightarrow> servo_attach g s = (False, initialize_servo_state s)"
  using find_servo_index_miss_iff [of g s] find_servo_index_snd [of g s]
  by (cases "find_servo_index g s") (simp add: servo_attach_def)

lemma servo_detach_registered:
  assumes "registered g s"
  shows "servo_detach g s =
    (True, if \<not> is_attached (servo_entry g s) then s
           else s\<lparr>servo_state := (servo_state s)[servo_slot g s :=
                       (servo_entry g s)\<lparr>is_attached := False\<rparr>],
                  hw_calls := hw_calls s @ [Pwm_set_enabled (slice_num (servo_entry g s)) False]\<rparr>)"
  using find_servo_index_registered [OF assms]
  by (simp add: servo_detach_def servo_entry_def Let_def)

lemma servo_attach_registered:
  assumes "registered g s"
  shows "servo_attach g s =
    (True, if is_attached (servo_entry g s) then s
           else s\<lparr>servo_state := (servo_state s)[servo_slot g s :=
                       (servo_entry g s)\<lparr>is_attached := True\<rparr>],
                  hw_calls := hw_calls s @ [Pwm_set_enabled (slice_num (servo_entry g s)) True]\<rparr>)"
  using find_servo_index_registered [OF assms]
  by (simp add: servo_attach_def servo_entry_def Let_def)


lemma initialize_servo_state_flag [simp]:
  "servo_state_initialized (initialize_servo_state s)"
  by (simp add: initialize_servo_state_def)

lemma initialize_servo_state_twice [simp]:
  "initialize_servo_state (initialize_servo_state s) = initialize_servo_state s"
  by (simp add: initialize_servo_state_def)

lemma initialize_servo_state_hw [simp]:
  "hw_calls (initialize_servo_state s) = hw_calls s"
  by (simp add: initialize_servo_state_def)

lemma initialize_servo_state_static:
  "static_zeroed s \<Longrightarrow> servo_state (initialize_servo_state s) = servo_state s"
  by (simp add: initialize_servo_state_def static_zeroed_def)

lemma registered_initialize [simp]:
  "registered g (initialize_servo_state s) \<longleftrightarrow> registered g s"
  by (auto simp: initialize_servo_state_def registered_def zero_servo_not_initialized)

lemma registry_full_initialize [simp]:
  "registry_full (initialize_servo_state s) \<longleftrightarrow> registry_full s"
  by (auto simp: initialize_servo_state_def registry_full_def zero_servo_not_initialized
      MAX_SERVOS_def intro!: exI [of _ 0])

lemma find_free_index_loop_full:
  "find_free_index_loop (servo_state (initialize_servo_state s)) 0 = - 1 \<longleftrightarrow> registry_full s"
  using registry_full_initialize [of s]
  by (simp add: find_free_index_loop_miss registry_full_def Ball_def
      del: registry_full_initialize)

lemma find_servo_index_loop_registered:
  "find_servo_index_loop (servo_state (initialize_servo_state s)) g 0 = - 1 \<longleftrightarrow> \<not> registered g s"
  using find_servo_index_miss_iff [of g s]
  by (simp add: find_servo_index_def Let_def)

lemma free_slot_props:
  assumes "\<not> registry_full s"
  shows "find_free_index_loop (servo_state (initialize_servo_state s)) 0 = int (free_slot s) \<and>
         free_slot s < MAX_SERVOS \<and>
         \<not> is_initialized (servo_state (initialize_servo_state s) ! free_slot s)"
proof -
  from assms have "find_free_index_loop (servo_state (initialize_servo_state s)) 0 \<noteq> - 1"
    by (simp add: find_free_index_loop_full)
  from find_free_index_loop_hit [OF this] obtain k where
    k: "find_free_index_loop (servo_state (initialize_servo_state s)) 0 = int k"
       "k < MAX_SERVOS" "\<not> is_initialized (servo_state (initialize_servo_state s) ! k)"
    by blast
  then have "free_slot s = k" by (simp add: free_slot_def find_free_index_def Let_def)
  with k show ?thesis by simp
qed

lemma servo_init_unfold:
  "servo_init h g min_us max_us s =
    (let s0 = initialize_servo_state s
     in if registry_full s then (False, s0)
        else if registered g s then (False, s0)
        else if min_us = 0 \<or> max_us = 0 \<or> max_us \<le> min_us then (False, s0)
        else (case calculate_pwm_params (cast_u16_overflow h) (clock_get_hz h)
                     SERVO_PWM_FREQ_HZ of
                None \<Rightarrow> (False, s0)
              | Some (wrap, clk_div_int, clk_div_frac) \<Rightarrow>
                  (True,
                    s0\<lparr>servo_state := (servo_state s0)[free_slot s :=
                                          new_servo h g wrap min_us max_us],
                       hw_calls := hw_calls s @
                         [Gpio_set_function_pwm g,
                          Pwm_init (slice_num (new_servo h g wrap min_us max_us))
                                   wrap clk_div_int clk_div_frac True,
                          Pwm_set_gpio_level g
                            (angle_to_level 0
                               (Some ((servo_state s0)[free_slot s :=
                                        new_servo h g wrap min_us max_us] ! free_slot s)))]\<rparr>)))"
proof (cases "registry_full s")
  case True
  then show ?thesis
    by (simp add: servo_init_def find_free_index_def Let_def find_free_index_loop_full)
next
  case False
  note fs = free_slot_props [OF False]
  show ?thesis
  proof (cases "registered g s")
    case True
    with False fs show ?thesis
      by (simp add: servo_init_def find_free_index_def find_servo_index_def Let_def
          find_free_index_loop_full find_servo_index_loop_registered)
  next
    case nr: False
    with False fs show ?thesis
      by (simp add: servo_init_def find_free_index_def find_servo_index_def Let_def
          find_free_index_loop_full find_servo_index_loop_registered new_servo_def
          split: option.splits)
  qed
qed

section \<open>Detach and attach\<close>

lemma attach_flag_keeps_identity:
  "is_initialized ((st[k := (st ! k)\<lparr>is_attached := b\<rparr>]) ! j) = is_initialized (st ! j) \<and>
   gpio_num ((st[k := (st ! k)\<lparr>is_attached := b\<rparr>]) ! j) = gpio_num (st ! j)"
  by (cases "k < length st") (auto simp: nth_list_update list_update_beyond)

lemma registered_attach_flag:
  "registered p (s\<lparr>servo_state := (servo_state s)[k := (servo_state s ! k)\<lparr>is_attached := b\<rparr>],
                   hw_calls := c\<rparr>) \<longleftrightarrow> registered p s"
  by (simp add: registered_def attach_flag_keeps_identity)

lemma registered_servo_detach:
  "registered p (snd (servo_detach g s)) \<longleftrightarrow> registered p s"
proof (cases "registered g s")
  case True
  then show ?thesis
    by (simp add: servo_detach_registered servo_entry_def registered_attach_flag)
next
  case False
  then show ?thesis by (simp add: servo_detach_unregistered)
qed

lemma registered_servo_attach:
  "registered p (snd (servo_attach g s)) \<longleftrightarrow> registered p s"
proof (cases "registered g s")
  case True
  then show ?thesis
    by (simp add: servo_attach_registered servo_entry_def registered_attach_flag)
next
  case False
  then show ?thesis by (simp add: servo_attach_unregistered)
qed

lemma run_detach_attach:
  "registered g s \<Longrightarrow> set cs \<subseteq> {Detach g, Attach g} \<Longrightarrow>
     \<exists>s'. run h cs s = (replicate (length cs) True, s') \<and> registered g s'"
proof (induction cs arbitrary: s)
  case Nil
  then show ?case by simp
next
  case (Cons c cs)
  from Cons.prems have c: "c = Detach g \<or> c = Attach g" and cs: "set cs \<subseteq> {Detach g, Attach g}"
    by auto
  have "\<exists>s1. exec h c s = (True, s1) \<and> registered g s1"
  proof (cases "c = Detach g")
    case True
    with Cons.prems(1) have "exec h c s = (True, snd (servo_detach g s))"
      by (simp add: servo_detach_registered)
    moreover have "registered g (snd (servo_detach g s))"
      using Cons.prems(1) by (simp add: registered_servo_detach)
    ultimately show ?thesis by blast
  next
    case False
    with c have "c = Attach g" by simp
    with Cons.prems(1) have "exec h c s = (True, snd (servo_attach g s))"
      by (simp add: servo_attach_registered)
    moreover have "registered g (snd (servo_attach g s))"
      using Cons.prems(1) by (simp add: registered_servo_attach)
    ultimately show ?thesis by blast
  qed
  then obtain s1 where s1: "exec h c s = (True, s1)" "registered g s1" by blast
  from Cons.IH [OF s1(2) cs] obtain s' where
    "run h cs s1 = (replicate (length cs) True, s')" "registered g s'" by blast
  with s1 show ?case by simp
qed

text \<open>
  Claim C8. \<open>servo_detach\<close> and \<open>servo_attach\<close> return \<open>false\<close> exactly when the pin is not
  registered. Detaching a pin that is already detached, or attaching one that is already
  attached, returns \<open>true\<close> and leaves the whole state as it is: no entry changes and no
  hardware call is made. Every call of any sequence of detach and attach calls on a
  registered pin returns \<open>true\<close>.
\<close>

theorem servo_detach_attach_idempotent:
  "(fst (servo_detach g s) \<longleftrightarrow> registered g s) \<and>
   (fst (servo_attach g s) \<longleftrightarrow> registered g s) \<and>
   (registered g s \<and> \<not> is_attached (servo_entry g s) \<longrightarrow> servo_detach g s = (True, s)) \<and>
   (registered g s \<and> is_attached (servo_entry g s) \<longrightarrow> servo_attach g s = (True, s)) \<and>
   (registered g s \<and> set cs \<subseteq> {Detach g, Attach g} \<longrightarrow>
      (\<exists>s'. run h cs s = (replicate (length cs) True, s') \<and> registered g s'))"
proof (cases "registered g s")
  case True
  then show ?thesis
    using run_detach_attach [of g s cs h]
    by (simp add: servo_detach_registered servo_attach_registered)
next
  case False
  then show ?thesis
    by (simp add: servo_detach_unregistered servo_attach_unregistered)
qed

lemma demo_registered: "registered 2 (demo_state [demo_servo 2 19999 1000 2000 b])"
  by (auto simp: registered_def demo_state_def demo_servo_def MAX_SERVOS_def Bex_def
      intro!: exI [of _ 0])

lemma demo_entry: "servo_entry 2 (demo_state [demo_servo 2 19999 1000 2000 b]) = demo_servo 2 19999 1000 2000 b"
  by (simp add: servo_entry_def servo_slot_def find_servo_index_def Let_def
      initialize_servo_state_def demo_state_def find_servo_index_loop.simps [of _ _ 0]
      MAX_SERVOS_def demo_servo_def)

theorem servo_detach_attach_idempotent_witness:
  "registered 2 (demo_state [demo_servo 2 19999 1000 2000 False]) \<and>
   \<not> is_attached (servo_entry 2 (demo_state [demo_servo 2 19999 1000 2000 False])) \<and>
   fst (servo_detach 2 (demo_state [demo_servo 2 19999 1000 2000 False])) \<and>
   servo_detach 2 (demo_state [demo_servo 2 19999 1000 2000 False]) =
     (True, demo_state [demo_servo 2 19999 1000 2000 False]) \<and>
   set [Detach 2, Attach 2, Attach 2, Detach 2] \<subseteq> {Detach 2, Attach 2} \<and>
   (\<exists>s'. run (demo_hal 1000000) [Detach 2, Attach 2, Attach 2, Detach 2]
            (demo_state [demo_servo 2 19999 1000 2000 False]) =
          ([True, True, True, True], s'))"
proof -
  let ?s = "demo_state [demo_servo 2 19999 1000 2000 False]"
  have r: "registered 2 ?s" by (rule demo_registered)
  have d: "\<not> is_attached (servo_entry 2 ?s)" by (subst demo_entry) (simp add: demo_servo_def)
  have c: "set [Detach 2, Attach 2, Attach 2, Detach 2] \<subseteq> {Detach 2, Attach 2}" by simp
  from servo_detach_attach_idempotent
         [of 2 ?s "[Detach 2, Attach 2, Attach 2, Detach 2]" "demo_hal 1000000"] r d c
  show ?thesis by (simp del: run.simps) blast
qed

text \<open>
  Claim C9. \<open>servo_attach\<close> on a registered, detached pin returns \<open>true\<close>; the new table is
  the old one with the \<open>is_attached\<close> flag of the pin's slot set and nothing else changed,
  the lazy-initialisation flag is unchanged, and the only hardware call added is the
  \<open>pwm_set_enabled\<close> of the entry's slice: no level is written.
\<close>

theorem servo_attach_frame:
  "registered g s \<and> \<not> is_attached (servo_entry g s) \<longrightarrow>
     servo_attach g s =
       (True, s\<lparr>servo_state := (servo_state s)[servo_slot g s :=
                                  (servo_state s ! servo_slot g s)\<lparr>is_attached := True\<rparr>],
                hw_calls := hw_calls s @ [Pwm_set_enabled (slice_num (servo_entry g s)) True]\<rparr>)"
  by (simp add: servo_attach_registered servo_entry_def)

theorem servo_attach_frame_witness:
  "registered 2 (demo_state [demo_servo 2 19999 1000 2000 False]) \<and>
   \<not> is_attached (servo_entry 2 (demo_state [demo_servo 2 19999 1000 2000 False])) \<and>
   servo_attach 2 (demo_state [demo_servo 2 19999 1000 2000 False]) =
     (True, (demo_state [demo_servo 2 19999 1000 2000 True])\<lparr>hw_calls := [Pwm_set_enabled 1 True]\<rparr>)"
proof -
  let ?s = "demo_state [demo_servo 2 19999 1000 2000 False]"
  have r: "registered 2 ?s" by (rule demo_registered)
  have d: "\<not> is_attached (servo_entry 2 ?s)" by (subst demo_entry) (simp add: demo_servo_def)
  have k: "servo_slot 2 ?s = 0"
    by (simp add: servo_slot_def find_servo_index_def Let_def
      initialize_servo_state_def demo_state_def find_servo_index_loop.simps [of _ _ 0]
      MAX_SERVOS_def demo_servo_def)
  from servo_attach_frame [of 2 ?s] r d
  show ?thesis by (simp add: k demo_entry) (simp add: demo_state_def demo_servo_def)
qed

section \<open>Setting an angle\<close>

lemma find_servo_index_loop_cong:
  "(\<And>k. k < MAX_SERVOS \<Longrightarrow> is_initialized (st' ! k) = is_initialized (st ! k) \<and>
                             gpio_num (st' ! k) = gpio_num (st ! k)) \<Longrightarrow>
   find_servo_index_loop st' g i = find_servo_index_loop st g i"
proof (induction st g i rule: find_servo_index_loop.induct)
  case (1 st g i)
  show ?case
  proof (cases "i < MAX_SERVOS")
    case False
    then show ?thesis
      by (simp add: find_servo_index_loop.simps [of st g i] find_servo_index_loop.simps [of st' g i])
  next
    case True
    show ?thesis
    proof (cases "is_initialized (st ! i) \<and> gpio_num (st ! i) = g")
      case hit: True
      with True 1(2) [of i] show ?thesis
        by (auto simp: find_servo_index_loop.simps [of st g i]
            find_servo_index_loop.simps [of st' g i])
    next
      case miss: False
      with True 1(1) 1(2) have "find_servo_index_loop st' g (i + 1) = find_servo_index_loop st g (i + 1)"
        by blast
      with True miss 1(2) [of i] show ?thesis
        by (auto simp: find_servo_index_loop.simps [of st g i]
            find_servo_index_loop.simps [of st' g i])
    qed
  qed
qed

lemma servo_slot_attach_flag:
  assumes "servo_state_initialized s"
  shows "servo_slot g (s\<lparr>servo_state := (servo_state s)[k := (servo_state s ! k)\<lparr>is_attached := b\<rparr>],
                          hw_calls := c\<rparr>) = servo_slot g s"
  using assms
  by (simp add: servo_slot_def find_servo_index_def Let_def initialize_servo_state_def
      find_servo_index_loop_cong [OF attach_flag_keeps_identity])

lemma angle_to_level_attach_flag:
  "angle_to_level a (Some (e\<lparr>is_attached := b\<rparr>)) = angle_to_level a (Some e)"
  by (simp add: angle_to_level_def level_f32_def pulse_us_def split: option.splits)

lemma angle_to_level_saturates:
  "180 < a \<Longrightarrow> angle_to_level a sv = angle_to_level 180 sv"
  by (simp add: angle_to_level_def split: option.splits)

lemma servo_set_unregistered:
  "\<not> registered g s \<Longrightarrow> servo_set g a s = (False, initialize_servo_state s)"
  using find_servo_index_miss_iff [of g s] find_servo_index_snd [of g s]
  by (cases "find_servo_index g s") (simp add: servo_set_def)

lemma servo_set_registered:
  assumes "registered g s"
  shows "servo_set g a s =
    (True, (if is_attached (servo_entry g s) then s
            else s\<lparr>servo_state := (servo_state s)[servo_slot g s :=
                        (servo_state s ! servo_slot g s)\<lparr>is_attached := True\<rparr>],
                   hw_calls := hw_calls s @ [Pwm_set_enabled (slice_num (servo_entry g s)) True]\<rparr>)
           \<lparr>hw_calls := hw_calls s @
              (if is_attached (servo_entry g s) then []
               else [Pwm_set_enabled (slice_num (servo_entry g s)) True]) @
              [Pwm_set_gpio_level g (angle_to_level a (Some (servo_entry g s)))]\<rparr>)"
proof -
  note f = find_servo_index_registered [OF assms]
  show ?thesis
  proof (cases "is_attached (servo_entry g s)")
    case True
    with f show ?thesis
      by (simp add: servo_set_def servo_entry_def Let_def)
  next
    case False
    let ?k = "servo_slot g s"
    let ?st = "servo_state s"
    have "?st[?k := (?st ! ?k)\<lparr>is_attached := True\<rparr>] ! ?k = (?st ! ?k)\<lparr>is_attached := True\<rparr>
          \<or> ?st[?k := (?st ! ?k)\<lparr>is_attached := True\<rparr>] ! ?k = ?st ! ?k"
      by (cases "?k < length ?st") (simp_all add: list_update_beyond)
    then have "angle_to_level a (Some (?st[?k := (?st ! ?k)\<lparr>is_attached := True\<rparr>] ! ?k))
               = angle_to_level a (Some (?st ! ?k))"
      by (auto simp: angle_to_level_attach_flag)
    with False f attach_flag_keeps_identity [of ?st ?k True ?k] show ?thesis
      by (simp add: servo_set_def servo_entry_def Let_def)
  qed
qed

lemma registered_servo_set:
  "registered p (snd (servo_set g a s)) \<longleftrightarrow> registered p s"
proof (cases "registered g s")
  case True
  then show ?thesis
    by (simp add: servo_set_registered servo_entry_def registered_attach_flag)
      (simp add: registered_def)
next
  case False
  then show ?thesis by (simp add: servo_set_unregistered)
qed

lemma servo_slot_hw [simp]: "servo_slot g (s\<lparr>hw_calls := c\<rparr>) = servo_slot g s"
  by (simp add: servo_slot_def find_servo_index_def Let_def initialize_servo_state_def)

lemma servo_entry_hw [simp]: "servo_entry g (s\<lparr>hw_calls := c\<rparr>) = servo_entry g s"
  by (simp add: servo_entry_def)

lemma servo_entry_attach_flag:
  assumes "servo_state_initialized s" and "servo_slot g s < length (servo_state s)"
  shows "servo_entry g (s\<lparr>servo_state := (servo_state s)[servo_slot g s :=
                              (servo_state s ! servo_slot g s)\<lparr>is_attached := b\<rparr>]\<rparr>)
         = (servo_entry g s)\<lparr>is_attached := b\<rparr>"
proof -
  let ?t = "s\<lparr>servo_state := (servo_state s)[servo_slot g s :=
                              (servo_state s ! servo_slot g s)\<lparr>is_attached := b\<rparr>]\<rparr>"
  have "servo_slot g (?t\<lparr>hw_calls := hw_calls s\<rparr>) = servo_slot g s"
    using servo_slot_attach_flag [OF assms(1), where g = g and k = "servo_slot g s" and b = b
        and c = "hw_calls s"] by simp
  then have "servo_slot g ?t = servo_slot g s" by (simp only: servo_slot_hw)
  then have "servo_entry g ?t = servo_state ?t ! servo_slot g s"
    by (simp only: servo_entry_def)
  also have "\<dots> = (servo_state s ! servo_slot g s)\<lparr>is_attached := b\<rparr>"
    using assms(2) by simp
  finally show ?thesis by (simp only: servo_entry_def)
qed

lemma servo_set_effect:
  "(fst (servo_set g a s) \<longleftrightarrow> registered g s) \<and>
   (registered g s \<and> servo_slot g s < length (servo_state s) \<longrightarrow>
      registered g (snd (servo_set g a s)) \<and>
      is_attached (servo_entry g (snd (servo_set g a s))) \<and>
      hw_calls (snd (servo_set g a s)) =
        hw_calls s @
        (if is_attached (servo_entry g s) then []
         else [Pwm_set_enabled (slice_num (servo_entry g s)) True]) @
        [Pwm_set_gpio_level g (angle_to_level a (Some (servo_entry g (snd (servo_set g a s)))))])"
proof (cases "registered g s")
  case False
  then show ?thesis by (simp add: servo_set_unregistered)
next
  case True
  then have fl: "servo_state_initialized s" by (simp add: registered_def)
  have f1: "fst (servo_set g a s)"
    using True by (simp add: servo_set_registered)
  have r1: "registered g (snd (servo_set g a s))"
    using True by (simp add: registered_servo_set)
  show ?thesis
  proof (cases "is_attached (servo_entry g s)")
    case att: True
    with True f1 r1 show ?thesis by (simp add: servo_set_registered)
  next
    case det: False
    have "servo_slot g s < length (servo_state s) \<Longrightarrow>
            servo_entry g (snd (servo_set g a s)) = (servo_entry g s)\<lparr>is_attached := True\<rparr>"
      using True det servo_entry_attach_flag [OF fl, where g = g and b = True]
      by (simp add: servo_set_registered)
    with True det f1 r1 show ?thesis
      by (auto simp: angle_to_level_attach_flag) (simp_all add: servo_set_registered)
  qed
qed

text \<open>
  Claim C10. For a registered pin \<open>servo_set\<close> returns \<open>true\<close> whatever the 8-bit angle is,
  and for an angle above 180 the whole outcome (return value, new state, level written)
  is the outcome for the angle 180.
\<close>

theorem servo_set_any_angle:
  "(registered g s \<longrightarrow> fst (servo_set g a s)) \<and>
   (180 < a \<longrightarrow> servo_set g a s = servo_set g 180 s)"
proof (cases "registered g s")
  case True
  then show ?thesis
    by (simp add: servo_set_registered angle_to_level_saturates)
next
  case False
  then show ?thesis by (simp add: servo_set_unregistered)
qed


lemma demo_slot: "servo_slot 2 (demo_state [demo_servo 2 19999 1000 2000 b]) = 0"
  by (simp add: servo_slot_def find_servo_index_def Let_def
      initialize_servo_state_def demo_state_def find_servo_index_loop.simps [of _ _ 0]
      MAX_SERVOS_def demo_servo_def)

text \<open>
  Claim C6. \<open>servo_set\<close> returns \<open>false\<close> exactly when the pin is not registered. After a
  successful call the pin is still registered and its entry is attached; the hardware
  trace has grown by the \<open>pwm_set_enabled\<close> of the slice, if the entry was detached,
  followed by the write of the level that \<open>angle_to_level\<close> computes for the entry.
\<close>

theorem servo_set_attaches_and_writes:
  "(fst (servo_set g a s) \<longleftrightarrow> registered g s) \<and>
   (registered g s \<and> length (servo_state s) = MAX_SERVOS \<longrightarrow>
      registered g (snd (servo_set g a s)) \<and>
      is_attached (servo_entry g (snd (servo_set g a s))) \<and>
      hw_calls (snd (servo_set g a s)) =
        hw_calls s @
        (if is_attached (servo_entry g s) then []
         else [Pwm_set_enabled (slice_num (servo_entry g s)) True]) @
        [Pwm_set_gpio_level g (angle_to_level a (Some (servo_entry g (snd (servo_set g a s)))))])"
proof -
  have "servo_slot g s < length (servo_state s)"
    if "registered g s" "length (servo_state s) = MAX_SERVOS"
    using find_servo_index_registered [OF that(1)] that(2) by simp
  with servo_set_effect [of g a s] show ?thesis by blast
qed

theorem servo_set_attaches_and_writes_witness:
  "registered 2 (demo_state [demo_servo 2 19999 1000 2000 False]) \<and>
   length (servo_state (demo_state [demo_servo 2 19999 1000 2000 False])) = MAX_SERVOS \<and>
   \<not> is_attached (servo_entry 2 (demo_state [demo_servo 2 19999 1000 2000 False])) \<and>
   fst (servo_set 2 90 (demo_state [demo_servo 2 19999 1000 2000 False])) \<and>
   is_attached (servo_entry 2 (snd (servo_set 2 90 (demo_state [demo_servo 2 19999 1000 2000 False])))) \<and>
   hw_calls (snd (servo_set 2 90 (demo_state [demo_servo 2 19999 1000 2000 False]))) =
     [Pwm_set_enabled 1 True,
      Pwm_set_gpio_level 2 (angle_to_level 90
        (Some (servo_entry 2 (snd (servo_set 2 90 (demo_state [demo_servo 2 19999 1000 2000 False]))))))]"
proof -
  let ?s = "demo_state [demo_servo 2 19999 1000 2000 False]"
  have r: "registered 2 ?s" by (rule demo_registered)
  have k: "length (servo_state ?s) = MAX_SERVOS"
    by (simp add: demo_state_def MAX_SERVOS_def)
  have d: "\<not> is_attached (servo_entry 2 ?s)" by (subst demo_entry) (simp add: demo_servo_def)
  have e: "slice_num (servo_entry 2 ?s) = 1" by (subst demo_entry) (simp add: demo_servo_def)
  have h: "hw_calls ?s = []" by (simp add: demo_state_def)
  from servo_set_attaches_and_writes [of 2 90 ?s] r k d e h
  show ?thesis by simp
qed

theorem servo_set_any_angle_witness:
  "registered 2 (demo_state [demo_servo 2 19999 1000 2000 True]) \<and> (180 :: u8) < 200 \<and>
   fst (servo_set 2 200 (demo_state [demo_servo 2 19999 1000 2000 True])) \<and>
   servo_set 2 200 (demo_state [demo_servo 2 19999 1000 2000 True]) =
   servo_set 2 180 (demo_state [demo_servo 2 19999 1000 2000 True])"
proof -
  let ?s = "demo_state [demo_servo 2 19999 1000 2000 True]"
  have r: "registered 2 ?s" by (rule demo_registered)
  have a: "(180 :: u8) < 200" by simp
  from servo_set_any_angle [of 2 ?s 200] r a
  show ?thesis by blast
qed

section \<open>Initialisation and the registry invariant\<close>

lemma calc_1MHz: "calculate_pwm_params low16 1000000 SERVO_PWM_FREQ_HZ = Some (19999, 1, 0)"
  by code_simp

text \<open>
  At the stock 125 MHz clock the quotient less one is 65572.77; its low 16 bits are 36.
\<close>

lemma calc_125MHz: "calculate_pwm_params low16 125000000 SERVO_PWM_FREQ_HZ = Some (36, 38, 2)"
  by code_simp

lemma servo_init_registered: "registered g s \<Longrightarrow> servo_init h g a b s = (False, s)"
  by (simp add: servo_init_unfold Let_def initialize_servo_state_idem registered_def)

lemma servo_init_full: "registry_full s \<Longrightarrow> servo_init h g a b s = (False, s)"
  by (simp add: servo_init_unfold Let_def initialize_servo_state_idem registry_full_def)

lemma servo_init_rejects:
  "registry_full s \<or> registered g s \<or> a = 0 \<or> b = 0 \<or> b \<le> a \<Longrightarrow>
     servo_init h g a b s = (False, initialize_servo_state s)"
  by (auto simp: servo_init_unfold Let_def)

lemma servo_init_result_iff:
  "fst (servo_init h g a b s) \<longleftrightarrow>
     \<not> registry_full s \<and> \<not> registered g s \<and> a \<noteq> 0 \<and> b \<noteq> 0 \<and> a < b \<and>
     calculate_pwm_params (cast_u16_overflow h) (clock_get_hz h) SERVO_PWM_FREQ_HZ \<noteq> None"
  by (auto simp: servo_init_unfold Let_def split: option.splits)

lemma servo_init_false:
  "\<not> fst (servo_init h g a b s) \<Longrightarrow> snd (servo_init h g a b s) = initialize_servo_state s"
  by (auto simp: servo_init_unfold Let_def split: if_splits option.splits)

lemma servo_init_true:
  assumes "fst (servo_init h g a b s)"
  shows "\<not> registry_full s \<and> \<not> registered g s \<and>
         (\<exists>wrap.
            servo_state (snd (servo_init h g a b s)) =
              (servo_state (initialize_servo_state s))[free_slot s := new_servo h g wrap a b] \<and>
            servo_state_initialized (snd (servo_init h g a b s)))"
  using assms
  by (auto simp: servo_init_unfold Let_def split: if_splits option.splits)

lemma length_initialize:
  "length (servo_state s) = MAX_SERVOS \<Longrightarrow>
   length (servo_state (initialize_servo_state s)) = MAX_SERVOS"
  by (simp add: initialize_servo_state_def)

lemma registeredI:
  "servo_state_initialized s \<Longrightarrow> k < MAX_SERVOS \<Longrightarrow> is_initialized (servo_state s ! k) \<Longrightarrow>
   gpio_num (servo_state s ! k) = g \<Longrightarrow> registered g s"
  unfolding registered_def by (metis atLeastLessThan_iff le0)

lemma servo_init_true_registered:
  assumes "fst (servo_init h g a b s)" and "length (servo_state s) = MAX_SERVOS"
  shows "registered g (snd (servo_init h g a b s))"
proof -
  let ?s' = "snd (servo_init h g a b s)"
  from servo_init_true [OF assms(1)] obtain wrap where
    nf: "\<not> registry_full s" and
    st: "servo_state ?s' = (servo_state (initialize_servo_state s))[free_slot s := new_servo h g wrap a b]"
    and fl: "servo_state_initialized ?s'"
    by blast
  from free_slot_props [OF nf] have k: "free_slot s < MAX_SERVOS" by simp
  with length_initialize [OF assms(2)]
  have "servo_state ?s' ! free_slot s = new_servo h g wrap a b"
    by (simp add: st)
  then have "is_initialized (servo_state ?s' ! free_slot s) \<and>
             gpio_num (servo_state ?s' ! free_slot s) = g"
    by (simp add: new_servo_def)
  with k fl show ?thesis by (auto intro: registeredI)
qed

lemma registered_servo_init:
  assumes "registered p s"
  shows "registered p (snd (servo_init h g a b s))"
proof (cases "fst (servo_init h g a b s)")
  case False
  with assms show ?thesis by (simp add: servo_init_false)
next
  case True
  let ?s' = "snd (servo_init h g a b s)"
  from servo_init_true [OF True] obtain wrap where
    nf: "\<not> registry_full s" and
    st: "servo_state ?s' = (servo_state (initialize_servo_state s))[free_slot s := new_servo h g wrap a b]"
    and fl: "servo_state_initialized ?s'"
    by blast
  from assms have s0: "initialize_servo_state s = s"
    by (simp add: initialize_servo_state_idem registered_def)
  from assms obtain k where
    k: "k < MAX_SERVOS" "is_initialized (servo_state s ! k)" "gpio_num (servo_state s ! k) = p"
    by (auto simp: registered_def)
  from free_slot_props [OF nf] s0 have "\<not> is_initialized (servo_state s ! free_slot s)" by simp
  with k have "k \<noteq> free_slot s" by auto
  then have "servo_state ?s' ! k = servo_state s ! k" by (simp add: st s0)
  with k fl show ?thesis by (auto intro: registeredI)
qed

lemma registered_exec:
  assumes "registered p s"
  shows "registered p (snd (exec h c s))"
proof (cases c)
  case (Init g a b)
  with assms show ?thesis by (simp add: registered_servo_init)
next
  case (Init_default g)
  with assms show ?thesis by (simp add: servo_init_default_def registered_servo_init)
next
  case (Set g a)
  with assms show ?thesis by (simp add: registered_servo_set)
next
  case (Detach g)
  with assms show ?thesis by (simp add: registered_servo_detach)
next
  case (Attach g)
  with assms show ?thesis by (simp add: registered_servo_attach)
qed

lemma run_Cons_snd: "snd (run h (c # cs) s) = snd (run h cs (snd (exec h c s)))"
  by (simp add: split_beta)

lemma run_Cons_fst: "fst (run h (c # cs) s) = fst (exec h c s) # fst (run h cs (snd (exec h c s)))"
  by (simp add: split_beta)

lemma registered_run:
  "registered p s \<Longrightarrow> registered p (snd (run h cs s))"
proof (induction cs arbitrary: s)
  case Nil
  then show ?case by simp
next
  case (Cons c cs)
  from Cons.IH [OF registered_exec [OF Cons.prems, of h c]] show ?case
    by (simp only: run_Cons_snd)
qed

text \<open>
  Claim C3. \<open>servo_init\<close> returns \<open>false\<close> when every slot is taken, when the pin is
  already registered, or when the pulse bounds are invalid; it returns \<open>true\<close> exactly
  when none of these holds and \<open>calculate_pwm_params\<close> succeeds. Whenever it returns
  \<open>false\<close> the state is the one left by the lazy set-up of the table alone: no hardware
  call was made, the table is unchanged (the set-up rewrites the zeroed static table with
  zeros), and once the table has been set up the state is exactly the one before the
  call. After a successful \<open>servo_init\<close> of a pin, and any sequence of further calls, a
  \<open>servo_init\<close> of the same pin returns \<open>false\<close> and changes nothing.
\<close>

theorem servo_init_failure_atomic:
  "(registry_full s \<or> registered g s \<or> min_us = 0 \<or> max_us = 0 \<or> max_us \<le> min_us \<longrightarrow>
      servo_init h g min_us max_us s = (False, initialize_servo_state s)) \<and>
   (fst (servo_init h g min_us max_us s) \<longleftrightarrow>
      \<not> registry_full s \<and> \<not> registered g s \<and>
      min_us \<noteq> 0 \<and> max_us \<noteq> 0 \<and> min_us < max_us \<and>
      calculate_pwm_params (cast_u16_overflow h) (clock_get_hz h) SERVO_PWM_FREQ_HZ \<noteq> None) \<and>
   (\<not> fst (servo_init h g min_us max_us s) \<longrightarrow>
      snd (servo_init h g min_us max_us s) = initialize_servo_state s \<and>
      hw_calls (snd (servo_init h g min_us max_us s)) = hw_calls s \<and>
      (static_zeroed s \<longrightarrow> servo_state (snd (servo_init h g min_us max_us s)) = servo_state s) \<and>
      (servo_state_initialized s \<longrightarrow> snd (servo_init h g min_us max_us s) = s)) \<and>
   (\<forall>cs h1 h2 min_us' max_us'.
      length (servo_state s) = MAX_SERVOS \<and> fst (servo_init h g min_us max_us s) \<longrightarrow>
      servo_init h2 g min_us' max_us' (snd (run h1 cs (snd (servo_init h g min_us max_us s))))
        = (False, snd (run h1 cs (snd (servo_init h g min_us max_us s)))))"
proof (intro conjI allI impI)
  assume "registry_full s \<or> registered g s \<or> min_us = 0 \<or> max_us = 0 \<or> max_us \<le> min_us"
  then show "servo_init h g min_us max_us s = (False, initialize_servo_state s)"
    by (rule servo_init_rejects)
next
  show "fst (servo_init h g min_us max_us s) \<longleftrightarrow>
      \<not> registry_full s \<and> \<not> registered g s \<and>
      min_us \<noteq> 0 \<and> max_us \<noteq> 0 \<and> min_us < max_us \<and>
      calculate_pwm_params (cast_u16_overflow h) (clock_get_hz h) SERVO_PWM_FREQ_HZ \<noteq> None"
    by (rule servo_init_result_iff)
next
  assume "\<not> fst (servo_init h g min_us max_us s)"
  then show "snd (servo_init h g min_us max_us s) = initialize_servo_state s"
    by (rule servo_init_false)
next
  assume "\<not> fst (servo_init h g min_us max_us s)"
  then show "hw_calls (snd (servo_init h g min_us max_us s)) = hw_calls s"
    by (simp add: servo_init_false)
next
  assume "\<not> fst (servo_init h g min_us max_us s)" "static_zeroed s"
  then show "servo_state (snd (servo_init h g min_us max_us s)) = servo_state s"
    by (simp add: servo_init_false initialize_servo_state_static)
next
  assume "\<not> fst (servo_init h g min_us max_us s)" "servo_state_initialized s"
  then show "snd (servo_init h g min_us max_us s) = s"
    by (simp add: servo_init_false initialize_servo_state_idem)
next
  fix cs h1 h2 min_us' max_us'
  assume a: "length (servo_state s) = MAX_SERVOS \<and> fst (servo_init h g min_us max_us s)"
  then have "registered g (snd (servo_init h g min_us max_us s))"
    using servo_init_true_registered by blast
  then have "registered g (snd (run h1 cs (snd (servo_init h g min_us max_us s))))"
    by (rule registered_run)
  then show "servo_init h2 g min_us' max_us'
               (snd (run h1 cs (snd (servo_init h g min_us max_us s))))
             = (False, snd (run h1 cs (snd (servo_init h g min_us max_us s))))"
    by (rule servo_init_registered)
qed

lemma boot_not_full: "\<not> registry_full boot_state"
  by (simp add: registry_full_def boot_state_def)

lemma boot_not_registered: "\<not> registered g boot_state"
  by (simp add: registered_def boot_state_def)

lemma boot_static: "static_zeroed boot_state"
  by (simp add: static_zeroed_def boot_state_def)

lemma boot_length: "length (servo_state boot_state) = MAX_SERVOS"
  by (simp add: boot_state_def)

text \<open>At the stock clock the first initialisation from boot succeeds.\<close>

lemma demo_init_succeeds:
  "fst (servo_init (demo_hal 125000000) 2 1000 2000 boot_state)"
  by (simp add: servo_init_result_iff boot_not_full boot_not_registered demo_hal_def
      calc_125MHz)

theorem servo_init_failure_atomic_witness:
  "servo_init (demo_hal 125000000) 2 0 2000 boot_state =
     (False, initialize_servo_state boot_state) \<and>
   static_zeroed boot_state \<and>
   servo_state (snd (servo_init (demo_hal 125000000) 2 0 2000 boot_state))
     = servo_state boot_state \<and>
   hw_calls (snd (servo_init (demo_hal 125000000) 2 0 2000 boot_state))
     = hw_calls boot_state \<and>
   registered 2 (demo_state [demo_servo 2 36 1000 2000 True]) \<and>
   servo_state_initialized (demo_state [demo_servo 2 36 1000 2000 True]) \<and>
   servo_init (demo_hal 125000000) 2 1000 2000 (demo_state [demo_servo 2 36 1000 2000 True]) =
     (False, demo_state [demo_servo 2 36 1000 2000 True]) \<and>
   length (servo_state boot_state) = MAX_SERVOS \<and>
   fst (servo_init (demo_hal 125000000) 2 1000 2000 boot_state) \<and>
   servo_init (demo_hal 125000000) 2 500 2500
     (snd (run (demo_hal 125000000) [Detach 2, Set 2 45]
             (snd (servo_init (demo_hal 125000000) 2 1000 2000 boot_state))))
   = (False, snd (run (demo_hal 125000000) [Detach 2, Set 2 45]
                    (snd (servo_init (demo_hal 125000000) 2 1000 2000 boot_state))))"
proof -
  let ?h = "demo_hal 125000000"
  let ?d = "demo_state [demo_servo 2 36 1000 2000 True]"
  have z: "(0 :: u16) = 0" by simp
  from servo_init_failure_atomic [of boot_state 2 0 2000 ?h] z
  have p1: "servo_init ?h 2 0 2000 boot_state = (False, initialize_servo_state boot_state)"
    by blast
  then have nf: "\<not> fst (servo_init ?h 2 0 2000 boot_state)" by simp
  from servo_init_failure_atomic [of boot_state 2 0 2000 ?h] nf boot_static
  have p2: "servo_state (snd (servo_init ?h 2 0 2000 boot_state)) = servo_state boot_state \<and>
            hw_calls (snd (servo_init ?h 2 0 2000 boot_state)) = hw_calls boot_state"
    by blast
  have r: "registered 2 ?d"
    by (auto simp: registered_def demo_state_def demo_servo_def MAX_SERVOS_def Bex_def
        intro!: exI [of _ 0])
  have f: "servo_state_initialized ?d" by (simp add: demo_state_def)
  from servo_init_failure_atomic [of ?d 2 1000 2000 ?h] r
  have "servo_init ?h 2 1000 2000 ?d = (False, initialize_servo_state ?d)" by blast
  moreover from this have "\<not> fst (servo_init ?h 2 1000 2000 ?d)" by simp
  ultimately have p3: "servo_init ?h 2 1000 2000 ?d = (False, ?d)"
    using servo_init_failure_atomic [of ?d 2 1000 2000 ?h] f by (metis prod.collapse)
  note ok = demo_init_succeeds
  from servo_init_failure_atomic [of boot_state 2 1000 2000 ?h] boot_length ok
  have p4: "servo_init ?h 2 500 2500
     (snd (run ?h [Detach 2, Set 2 45] (snd (servo_init ?h 2 1000 2000 boot_state))))
   = (False, snd (run ?h [Detach 2, Set 2 45] (snd (servo_init ?h 2 1000 2000 boot_state))))"
    by blast
  from p1 p2 boot_static r f p3 boot_length ok p4 show ?thesis by blast
qed

lemma registry_inv_initialize:
  "registry_inv s \<Longrightarrow> registry_inv (initialize_servo_state s)"
  by (auto simp: registry_inv_def initialize_servo_state_def zero_servo_not_initialized)

lemma registry_inv_hw [simp]: "registry_inv (s\<lparr>hw_calls := c\<rparr>) = registry_inv s"
  by (simp add: registry_inv_def)

lemma registry_inv_attach_flag:
  "registry_inv s \<Longrightarrow>
   registry_inv (s\<lparr>servo_state := (servo_state s)[k := (servo_state s ! k)\<lparr>is_attached := b\<rparr>]\<rparr>)"
  unfolding registry_inv_def
  using length_filter_le [of is_initialized "(servo_state s)[k := (servo_state s ! k)\<lparr>is_attached := b\<rparr>]"]
  by (simp add: attach_flag_keeps_identity)

lemma registry_inv_servo_detach: "registry_inv s \<Longrightarrow> registry_inv (snd (servo_detach g s))"
proof (cases "registered g s")
  case True
  assume "registry_inv s"
  with True registry_inv_attach_flag [of s "servo_slot g s" False] show ?thesis
    by (simp add: servo_detach_registered servo_entry_def)
next
  case False
  assume "registry_inv s"
  with False show ?thesis by (simp add: servo_detach_unregistered registry_inv_initialize)
qed

lemma registry_inv_servo_attach: "registry_inv s \<Longrightarrow> registry_inv (snd (servo_attach g s))"
proof (cases "registered g s")
  case True
  assume "registry_inv s"
  with True registry_inv_attach_flag [of s "servo_slot g s" True] show ?thesis
    by (simp add: servo_attach_registered servo_entry_def)
next
  case False
  assume "registry_inv s"
  with False show ?thesis by (simp add: servo_attach_unregistered registry_inv_initialize)
qed

lemma registry_inv_servo_set: "registry_inv s \<Longrightarrow> registry_inv (snd (servo_set g a s))"
proof (cases "registered g s")
  case True
  assume "registry_inv s"
  with True registry_inv_attach_flag [of s "servo_slot g s" True] show ?thesis
    by (simp add: servo_set_registered)
next
  case False
  assume "registry_inv s"
  with False show ?thesis by (simp add: servo_set_unregistered registry_inv_initialize)
qed

lemma registry_inv_servo_init:
  assumes "registry_inv s"
  shows "registry_inv (snd (servo_init h g a b s))"
proof (cases "fst (servo_init h g a b s)")
  case False
  with assms show ?thesis by (simp add: servo_init_false registry_inv_initialize)
next
  case True
  let ?s' = "snd (servo_init h g a b s)"
  from servo_init_true [OF True] obtain wrap where
    nf: "\<not> registry_full s" and nr: "\<not> registered g s" and
    st: "servo_state ?s' = (servo_state (initialize_servo_state s))[free_slot s := new_servo h g wrap a b]"
    by blast
  let ?s0 = "initialize_servo_state s"
  let ?st = "servo_state ?s0"
  let ?f = "free_slot s"
  have inv0: "registry_inv ?s0" using assms by (rule registry_inv_initialize)
  then have len: "length ?st = MAX_SERVOS" by (simp add: registry_inv_def)
  from free_slot_props [OF nf] have f: "?f < MAX_SERVOS" by simp
  have fresh: "gpio_num (?st ! k) \<noteq> g" if "k < MAX_SERVOS" "is_initialized (?st ! k)" for k
  proof
    assume "gpio_num (?st ! k) = g"
    with that registeredI [of ?s0 k g] have "registered g ?s0"
      by (simp del: registered_initialize)
    with nr show False by simp
  qed
  have new: "servo_state ?s' ! ?f = new_servo h g wrap a b"
    using f len by (simp add: st)
  have old: "servo_state ?s' ! k = ?st ! k" if "k \<noteq> ?f" for k
    using that by (simp add: st)
  have "gpio_num (servo_state ?s' ! i) \<noteq> gpio_num (servo_state ?s' ! j)"
    if "i < MAX_SERVOS" "j < MAX_SERVOS" "i \<noteq> j"
       "is_initialized (servo_state ?s' ! i)" "is_initialized (servo_state ?s' ! j)" for i j
  proof (cases "i = ?f")
    case True
    with that have "j \<noteq> ?f" by simp
    with that(2,5) fresh [of j] old [of j] new True show ?thesis
      by (simp add: new_servo_def)
  next
    case False
    show ?thesis
    proof (cases "j = ?f")
      case True
      with that(1,4) fresh [of i] old [of i] new False show ?thesis
        by (simp add: new_servo_def)
    next
      case jf: False
      with False that old [of i] old [of j] inv0 show ?thesis
        by (simp add: registry_inv_def)
    qed
  qed
  moreover have "length (servo_state ?s') = MAX_SERVOS" by (simp add: st len)
  moreover have "length (filter is_initialized (servo_state ?s')) \<le> MAX_SERVOS"
    using length_filter_le [of is_initialized "servo_state ?s'"]
      \<open>length (servo_state ?s') = MAX_SERVOS\<close>
    by simp
  ultimately show ?thesis by (simp add: registry_inv_def)
qed

lemma registry_inv_exec:
  assumes "registry_inv s"
  shows "registry_inv (snd (exec h c s))"
proof (cases c)
  case (Init g a b)
  with assms show ?thesis by (simp add: registry_inv_servo_init)
next
  case (Init_default g)
  with assms show ?thesis by (simp add: servo_init_default_def registry_inv_servo_init)
next
  case (Set g a)
  with assms show ?thesis by (simp add: registry_inv_servo_set)
next
  case (Detach g)
  with assms show ?thesis by (simp add: registry_inv_servo_detach)
next
  case (Attach g)
  with assms show ?thesis by (simp add: registry_inv_servo_attach)
qed

lemma registry_inv_run:
  "registry_inv s \<Longrightarrow> registry_inv (snd (run h cs s))"
proof (induction cs arbitrary: s)
  case Nil
  then show ?case by simp
next
  case (Cons c cs)
  from Cons.IH [OF registry_inv_exec [OF Cons.prems, of h c]] show ?case
    by (simp only: run_Cons_snd)
qed

lemma registry_inv_boot: "registry_inv boot_state"
  by (simp add: registry_inv_def boot_state_def zero_servo_not_initialized)

lemma all_initialized_full:
  assumes "servo_state_initialized s" and "length (servo_state s) = MAX_SERVOS"
    and "length (filter is_initialized (servo_state s)) = MAX_SERVOS"
  shows "registry_full s"
proof -
  from assms(2,3) have "filter is_initialized (servo_state s) = servo_state s"
    by (metis length_filter_less filter_True nat_neq_iff)
  then have "\<forall>x\<in>set (servo_state s). is_initialized x" by (metis filter_id_conv)
  with assms(1,2) show ?thesis by (simp add: registry_full_def)
qed

text \<open>
  Claim C4. The registry invariant (the table has \<open>MAX_SERVOS = 8\<close> slots, so at most 8
  entries are initialized, and the pins of initialized entries are pairwise distinct)
  holds in the boot state, is preserved by every public operation, whatever it returns,
  and so holds after every sequence of calls from boot. Once 8 entries are initialized,
  \<open>servo_init\<close> on any pin returns \<open>false\<close> and leaves the state unchanged.
\<close>

theorem registry_invariant:
  "registry_inv boot_state \<and>
   (registry_inv s \<longrightarrow> registry_inv (snd (exec h c s))) \<and>
   (\<forall>cs. registry_inv (snd (run h cs boot_state))) \<and>
   (servo_state_initialized s \<and> length (servo_state s) = MAX_SERVOS \<and>
    length (filter is_initialized (servo_state s)) = MAX_SERVOS \<longrightarrow>
      servo_init h g min_us max_us s = (False, s))"
  using registry_inv_boot registry_inv_exec registry_inv_run all_initialized_full servo_init_full
  by blast

text \<open>
  Nine initialisations of distinct pins from boot, at the stock clock: the ninth is
  refused.
\<close>

lemma nine_inits:
  "fst (run (demo_hal 125000000)
      [Init 0 1000 2000, Init 1 1000 2000, Init 2 1000 2000, Init 3 1000 2000,
       Init 4 1000 2000, Init 5 1000 2000, Init 6 1000 2000, Init 7 1000 2000,
       Init 8 1000 2000] boot_state)
   = [True, True, True, True, True, True, True, True, False]"
  by code_simp

theorem registry_invariant_witness:
  "registry_inv boot_state \<and>
   fst (exec (demo_hal 125000000) (Init 2 1000 2000) boot_state) \<and>
   registry_inv (snd (exec (demo_hal 125000000) (Init 2 1000 2000) boot_state)) \<and>
   registry_inv (snd (run (demo_hal 125000000) [Init 2 1000 2000, Init 3 1000 2000] boot_state)) \<and>
   servo_state_initialized full_state \<and>
   length (servo_state full_state) = MAX_SERVOS \<and>
   length (filter is_initialized (servo_state full_state)) = MAX_SERVOS \<and>
   servo_init (demo_hal 125000000) 8 1000 2000 full_state = (False, full_state)"
proof -
  let ?h = "demo_hal 125000000"
  note inv = registry_invariant [of boot_state ?h "Init 2 1000 2000" 8 1000 2000]
  from inv have b: "registry_inv boot_state" by blast
  have ok: "fst (exec ?h (Init 2 1000 2000) boot_state)"
    using demo_init_succeeds by simp
  from inv b have i1: "registry_inv (snd (exec ?h (Init 2 1000 2000) boot_state))" by blast
  from inv have i2: "registry_inv (snd (run ?h [Init 2 1000 2000, Init 3 1000 2000] boot_state))"
    by blast
  have f: "servo_state_initialized full_state" "length (servo_state full_state) = MAX_SERVOS"
    "length (filter is_initialized (servo_state full_state)) = MAX_SERVOS"
    by (simp_all add: full_state_def demo_state_def demo_servo_def MAX_SERVOS_def)
  with registry_invariant [of full_state ?h "Init 2 1000 2000" 8 1000 2000]
  have "servo_init ?h 8 1000 2000 full_state = (False, full_state)" by blast
  with b ok i1 i2 f show ?thesis by blast
qed

section \<open>Properties of single-precision rounding\<close>

lemma pow2_powi: "pow2 k = 2 powi k"
  by (simp add: pow2_def power_int_def field_simps)

lemma pow2_pos [simp]: "0 < pow2 k"
  by (simp add: pow2_powi)

lemma pow2_nonneg [simp]: "0 \<le> pow2 k"
  by (simp add: pow2_powi)

lemma pow2_neq0 [simp]: "pow2 k \<noteq> 0"
  by (simp add: pow2_powi)

lemma pow2_add: "pow2 (a + b) = pow2 a * pow2 b"
  by (simp add: pow2_powi power_int_add)

lemma pow2_diff: "pow2 (a - b) = pow2 a / pow2 b"
  by (simp add: pow2_powi power_int_diff)

lemma pow2_nat: "pow2 (int n) = 2 ^ n"
  by (simp add: pow2_def)

lemma pow2_0 [simp]: "pow2 0 = 1"
  by (simp add: pow2_def)

lemma pow2_strict_mono: "a < b \<Longrightarrow> pow2 a < pow2 b"
  by (simp add: pow2_powi power_int_strict_increasing)

lemma pow2_24 [simp]: "pow2 24 = 16777216"
  by (simp add: pow2_def)

lemma pow2_23 [simp]: "pow2 23 = 8388608"
  by (simp add: pow2_def)

lemma pow2_less_iff [simp]: "pow2 a < pow2 b \<longleftrightarrow> a < b"
  using pow2_strict_mono [of a b] pow2_strict_mono [of b a]
  by (cases a b rule: linorder_cases) auto

lemma pow2_le_iff [simp]: "pow2 a \<le> pow2 b \<longleftrightarrow> a \<le> b"
  using pow2_less_iff [of b a] by (simp only: not_less [symmetric])

lemma ilog2_bounds:
  assumes "0 < x"
  shows "pow2 (ilog2 x) \<le> x \<and> x < pow2 (ilog2 x + 1)"
proof -
  obtain p q where pq: "quotient_of x = (p, q)" by (cases "quotient_of x")
  then have q: "0 < q" and x: "x = of_int p / of_int q"
    using quotient_of_denom_pos quotient_of_div by blast+
  with assms have p: "0 < p" by (simp add: zero_less_divide_iff)
  let ?bp = "bitlen p" and ?bq = "bitlen q"
  from bitlen_bounds [OF p] have bp: "2 ^ nat (?bp - 1) \<le> p" "p < 2 ^ nat ?bp" by simp_all
  from bitlen_bounds [OF q] have bq: "2 ^ nat (?bq - 1) \<le> q" "q < 2 ^ nat ?bq" by simp_all
  from p have bp1: "1 \<le> ?bp" by (simp add: bitlen_alt_def)
  from q have bq1: "1 \<le> ?bq" by (simp add: bitlen_alt_def)
  have P1: "pow2 (?bp - 1) \<le> of_int p"
  proof -
    have "(of_int (2 ^ nat (?bp - 1)) :: rat) \<le> of_int p" using bp(1) by (simp only: of_int_le_iff)
    then show ?thesis using bp1 by (simp add: pow2_def)
  qed
  have P2: "of_int p < pow2 ?bp"
  proof -
    have "(of_int p :: rat) < of_int (2 ^ nat ?bp)" using bp(2) by (simp only: of_int_less_iff)
    then show ?thesis using bp1 by (simp add: pow2_def)
  qed
  have Q1: "pow2 (?bq - 1) \<le> of_int q"
  proof -
    have "(of_int (2 ^ nat (?bq - 1)) :: rat) \<le> of_int q" using bq(1) by (simp only: of_int_le_iff)
    then show ?thesis using bq1 by (simp add: pow2_def)
  qed
  have Q2: "of_int q < pow2 ?bq"
  proof -
    have "(of_int q :: rat) < of_int (2 ^ nat ?bq)" using bq(2) by (simp only: of_int_less_iff)
    then show ?thesis using bq1 by (simp add: pow2_def)
  qed
  let ?d = "?bp - ?bq"
  have qpos: "(0 :: rat) < of_int q" using q by simp
  have up: "x < pow2 (?d + 1)"
  proof -
    have "of_int p < pow2 (?d + 1) * pow2 (?bq - 1)"
      using P2 by (simp add: pow2_add [symmetric])
    also have "\<dots> \<le> pow2 (?d + 1) * of_int q"
      using Q1 by (simp add: mult_left_mono)
    finally show ?thesis using qpos by (simp add: x pos_divide_less_eq)
  qed
  have lo: "pow2 (?d - 1) < x"
  proof -
    have "pow2 (?d - 1) * of_int q < pow2 (?d - 1) * pow2 ?bq"
      using Q2 by (simp add: mult_strict_left_mono)
    also have "\<dots> = pow2 (?bp - 1)" by (simp add: pow2_add [symmetric])
    also have "\<dots> \<le> of_int p" by (rule P1)
    finally show ?thesis using qpos by (simp add: x pos_less_divide_eq)
  qed
  show ?thesis
  proof (cases "pow2 ?d \<le> x")
    case True
    then have "ilog2 x = ?d" by (simp add: ilog2_def pq)
    with True up show ?thesis by simp
  next
    case False
    then have "ilog2 x = ?d - 1" by (simp add: ilog2_def pq)
    with False lo show ?thesis by simp
  qed
qed

lemma ilog2_less: "0 < x \<Longrightarrow> x < pow2 k \<Longrightarrow> ilog2 x < k"
  using ilog2_bounds [of x] pow2_less_iff [of "ilog2 x" k] by linarith

lemma ilog2_ge: "pow2 k \<le> x \<Longrightarrow> k \<le> ilog2 x"
proof -
  assume a: "pow2 k \<le> x"
  then have "0 < x" using pow2_pos [of k] by linarith
  from ilog2_bounds [OF this] a have "pow2 k < pow2 (ilog2 x + 1)" by linarith
  then show ?thesis by simp
qed

lemma ilog2_eq: "pow2 e \<le> x \<Longrightarrow> x < pow2 (e + 1) \<Longrightarrow> ilog2 x = e"
proof -
  assume a: "pow2 e \<le> x" "x < pow2 (e + 1)"
  then have "0 < x" using pow2_pos [of e] by linarith
  from ilog2_less [OF this a(2)] ilog2_ge [OF a(1)] show ?thesis by simp
qed

lemma ilog2_mono: "0 < x \<Longrightarrow> x \<le> y \<Longrightarrow> ilog2 x \<le> ilog2 y"
proof -
  assume a: "0 < x" "x \<le> y"
  from ilog2_bounds [OF a(1)] a(2) have "pow2 (ilog2 x) \<le> y" by linarith
  then show ?thesis by (rule ilog2_ge)
qed

lemma rne_of_int [simp]: "rne (of_int k) = k"
  by (simp add: rne_def)

lemma rne_floor_cases: "rne x = \<lfloor>x\<rfloor> \<or> rne x = \<lfloor>x\<rfloor> + 1"
  by (simp add: rne_def Let_def)

lemma rne_mono: "x \<le> y \<Longrightarrow> rne x \<le> rne y"
proof -
  assume xy: "x \<le> y"
  then have fl: "\<lfloor>x\<rfloor> \<le> \<lfloor>y\<rfloor>" by (rule floor_mono)
  show ?thesis
  proof (cases "\<lfloor>x\<rfloor> = \<lfloor>y\<rfloor>")
    case True
    with xy show ?thesis by (auto simp: rne_def Let_def)
  next
    case False
    with fl have "\<lfloor>x\<rfloor> + 1 \<le> \<lfloor>y\<rfloor>" by simp
    with rne_floor_cases [of x] rne_floor_cases [of y] show ?thesis by linarith
  qed
qed

lemma rne_nonneg: "0 \<le> x \<Longrightarrow> 0 \<le> rne x"
  using rne_mono [of 0 x] rne_of_int [of 0] by simp

lemma rne_nonpos: "x \<le> 0 \<Longrightarrow> rne x \<le> 0"
  using rne_mono [of x 0] rne_of_int [of 0] by simp


lemma f32_round_0 [simp]: "f32_round 0 = 0"
  by (simp add: f32_round_def)

lemma f32_qexp_ge: "- 149 \<le> f32_qexp x"
  by (simp add: f32_qexp_def)

lemma f32_qexp_ilog2: "ilog2 \<bar>x\<bar> - 23 \<le> f32_qexp x"
  by (simp add: f32_qexp_def)

lemma f32_round_exact:
  assumes "x = of_int m * pow2 e" and "\<bar>m\<bar> < 2 ^ 24" and "- 149 \<le> e"
  shows "f32_round x = x"
proof (cases "x = 0")
  case True
  then show ?thesis by simp
next
  case False
  let ?q = "f32_qexp x"
  have "\<bar>x\<bar> = of_int \<bar>m\<bar> * pow2 e"
    by (simp add: assms(1) abs_mult)
  also have "\<dots> < of_int (2 ^ 24) * pow2 e"
    using assms(2) by (intro mult_strict_right_mono) (simp_all only: of_int_less_iff pow2_pos)
  also have "\<dots> = pow2 (24 + e)"
    by (simp add: pow2_add)
  finally have "\<bar>x\<bar> < pow2 (24 + e)" .
  moreover from False have "0 < \<bar>x\<bar>" by simp
  ultimately have "ilog2 \<bar>x\<bar> < 24 + e" by (rule ilog2_less [rotated])
  with assms(3) have "?q \<le> e" by (simp add: f32_qexp_def)
  then obtain n where n: "e - ?q = int n" using zero_le_imp_eq_int [of "e - ?q"] by auto
  have "x / pow2 ?q = of_int m * pow2 (e - ?q)"
    by (simp add: assms(1) pow2_diff)
  also have "\<dots> = of_int (m * 2 ^ n)"
    by (simp add: n pow2_nat)
  finally have sc: "x / pow2 ?q = of_int (m * 2 ^ n)" .
  have "f32_round x = of_int (rne (x / pow2 ?q)) * pow2 ?q"
    using False by (simp add: f32_round_def)
  also have "\<dots> = (x / pow2 ?q) * pow2 ?q"
    by (simp only: sc rne_of_int)
  also have "\<dots> = x" by simp
  finally show ?thesis .
qed

lemma f32_round_of_int: "\<bar>n\<bar> < 2 ^ 24 \<Longrightarrow> f32_round (of_int n) = of_int n"
  using f32_round_exact [of "of_int n" n 0] by simp

lemma f32_of_int_exact: "\<bar>n\<bar> < 2 ^ 24 \<Longrightarrow> f32_of_int n = of_int n"
  by (simp add: f32_of_int_def f32_round_of_int)

lemma f32_round_pow2: "- 149 \<le> k \<Longrightarrow> f32_round (pow2 k) = pow2 k"
  using f32_round_exact [of "pow2 k" 1 k] by simp

lemma f32_round_nonneg: "0 \<le> x \<Longrightarrow> 0 \<le> f32_round x"
  by (simp add: f32_round_def rne_nonneg)

lemma f32_round_nonpos: "x \<le> 0 \<Longrightarrow> f32_round x \<le> 0"
  by (simp add: f32_round_def rne_nonpos divide_le_0_iff mult_le_0_iff)

text \<open>Rounding stays inside the closed binade of its argument.\<close>

lemma f32_round_binade_upper:
  assumes "0 < x"
  shows "f32_round x \<le> pow2 (f32_qexp x + 24)"
proof -
  let ?q = "f32_qexp x"
  from assms have ax: "\<bar>x\<bar> = x" by simp
  have "x < pow2 (ilog2 x + 1)" using ilog2_bounds [OF assms] by simp
  also have "\<dots> \<le> pow2 (?q + 24)"
    using f32_qexp_ilog2 [of x] by (simp add: ax)
  finally have "x / pow2 ?q < pow2 (?q + 24) / pow2 ?q"
    by (simp add: divide_strict_right_mono)
  also have "\<dots> = of_int (2 ^ 24)" by (simp add: pow2_add)
  finally have "rne (x / pow2 ?q) \<le> rne (of_int (2 ^ 24))"
    by (intro rne_mono) simp
  then have "rne (x / pow2 ?q) \<le> 2 ^ 24" by (simp only: rne_of_int)
  then have "(of_int (rne (x / pow2 ?q)) :: rat) \<le> of_int (2 ^ 24)" by (simp only: of_int_le_iff)
  then have "of_int (rne (x / pow2 ?q)) * pow2 ?q \<le> of_int (2 ^ 24) * pow2 ?q"
    by (intro mult_right_mono) simp_all
  also have "\<dots> = pow2 (?q + 24)" by (simp add: pow2_add)
  finally show ?thesis using assms by (simp add: f32_round_def)
qed

lemma f32_round_binade_lower:
  assumes "0 < x" and "- 126 \<le> ilog2 x"
  shows "pow2 (ilog2 x) \<le> f32_round x"
proof -
  let ?q = "f32_qexp x"
  from assms have q: "?q = ilog2 x - 23" by (simp add: f32_qexp_def)
  have "of_int (2 ^ 23) = pow2 (ilog2 x) / pow2 ?q"
    by (simp add: q pow2_diff [symmetric])
  also have "\<dots> \<le> x / pow2 ?q"
    using ilog2_bounds [OF assms(1)] by (simp add: divide_right_mono)
  finally have "rne (of_int (2 ^ 23)) \<le> rne (x / pow2 ?q)" by (rule rne_mono)
  then have "2 ^ 23 \<le> rne (x / pow2 ?q)" by (simp only: rne_of_int)
  then have "(of_int (2 ^ 23) :: rat) \<le> of_int (rne (x / pow2 ?q))" by (simp only: of_int_le_iff)
  then have le: "of_int (2 ^ 23) * pow2 ?q \<le> of_int (rne (x / pow2 ?q)) * pow2 ?q"
    by (intro mult_right_mono) simp_all
  have "pow2 (ilog2 x) = of_int (2 ^ 23) * pow2 ?q"
    by (simp add: q pow2_diff)
  also note le
  also have "of_int (rne (x / pow2 ?q)) * pow2 ?q = f32_round x"
    using assms(1) by (simp add: f32_round_def)
  finally show ?thesis .
qed

lemma f32_round_mono_nonneg:
  assumes "0 \<le> x" and "x \<le> y"
  shows "f32_round x \<le> f32_round y"
proof (cases "x = 0")
  case True
  with assms show ?thesis by (simp add: f32_round_nonneg)
next
  case False
  with assms have x: "0 < x" and y: "0 < y" by simp_all
  let ?qx = "f32_qexp x" and ?qy = "f32_qexp y"
  have qle: "?qx \<le> ?qy"
    using ilog2_mono [OF x assms(2)] x y by (simp add: f32_qexp_def)
  show ?thesis
  proof (cases "?qx = ?qy")
    case True
    have "x / pow2 ?qy \<le> y / pow2 ?qy"
      using assms(2) by (simp add: divide_right_mono)
    then have "rne (x / pow2 ?qy) \<le> rne (y / pow2 ?qy)" by (rule rne_mono)
    then have "(of_int (rne (x / pow2 ?qy)) :: rat) \<le> of_int (rne (y / pow2 ?qy))"
      by (simp only: of_int_le_iff)
    then have "of_int (rne (x / pow2 ?qy)) * pow2 ?qy \<le> of_int (rne (y / pow2 ?qy)) * pow2 ?qy"
      by (intro mult_right_mono) simp_all
    with x y True show ?thesis by (simp add: f32_round_def)
  next
    case False
    with qle have lt: "?qx < ?qy" by simp
    then have "max (ilog2 x) (- 126) < max (ilog2 y) (- 126)"
      using x y by (simp add: f32_qexp_def)
    then have ly: "- 126 \<le> ilog2 y" by linarith
    then have qy: "?qy = ilog2 y - 23" using y by (simp add: f32_qexp_def)
    have "f32_round x \<le> pow2 (?qx + 24)" by (rule f32_round_binade_upper [OF x])
    also have "\<dots> \<le> pow2 (ilog2 y)" using lt qy by simp
    also have "\<dots> \<le> f32_round y" by (rule f32_round_binade_lower [OF y ly])
    finally show ?thesis .
  qed
qed

lemma f32_round_le:
  assumes "0 \<le> x" and "x \<le> b" and "f32_round b = b"
  shows "f32_round x \<le> b"
  using f32_round_mono_nonneg [OF assms(1,2)] assms(3) by simp

lemma f32_round_ge:
  assumes "0 \<le> b" and "b \<le> x" and "f32_round b = b"
  shows "b \<le> f32_round x"
  using f32_round_mono_nonneg [OF assms(1,2)] assms(3) by simp

text \<open>A rounded value of magnitude at least \<open>2 ^ k\<close> lies on the grid of step \<open>2 ^ (k - 23)\<close>.\<close>

lemma f32_round_grid:
  assumes "pow2 k \<le> f32_round y"
  shows "\<exists>n. f32_round y = of_int n * pow2 (k - 23)"
proof -
  let ?q = "f32_qexp y"
  let ?m = "rne (y / pow2 ?q)"
  have rpos: "0 < f32_round y" using assms pow2_pos [of k] by linarith
  have y: "0 < y"
  proof (rule ccontr)
    assume "\<not> 0 < y"
    then have "f32_round y \<le> 0" by (intro f32_round_nonpos) simp
    with rpos show False by simp
  qed
  then have r: "f32_round y = of_int ?m * pow2 ?q" by (simp add: f32_round_def)
  show ?thesis
  proof (cases "k - 23 \<le> ?q")
    case True
    then obtain n where n: "?q - (k - 23) = int n"
      using zero_le_imp_eq_int [of "?q - (k - 23)"] by auto
    have "pow2 ?q = pow2 (?q - (k - 23)) * pow2 (k - 23)"
      by (simp add: pow2_add [symmetric])
    also have "\<dots> = of_int (2 ^ n) * pow2 (k - 23)"
      by (simp add: n pow2_nat)
    finally have "f32_round y = of_int (?m * 2 ^ n) * pow2 (k - 23)"
      by (simp add: r)
    then show ?thesis by blast
  next
    case False
    then have "?q + 24 \<le> k" by simp
    with f32_round_binade_upper [OF y] have "f32_round y \<le> pow2 k"
      using pow2_le_iff [of "?q + 24" k] by linarith
    with assms have "f32_round y = pow2 k" by simp
    also have "\<dots> = of_int (2 ^ 23) * pow2 (k - 23)"
      by (simp add: pow2_diff)
    finally show ?thesis by blast
  qed
qed

section \<open>The PWM parameters\<close>

lemma trunc0_nonneg: "0 \<le> x \<Longrightarrow> trunc0 x = \<lfloor>x\<rfloor>"
  by (simp add: trunc0_def)

lemma trunc0_nonpos: "x \<le> 0 \<Longrightarrow> trunc0 x \<le> 0"
  by (auto simp: trunc0_def)

lemma f32_to_u16_Some:
  "f32_to_u16 x = Some w \<longleftrightarrow> 0 \<le> trunc0 x \<and> trunc0 x \<le> 65535 \<and> w = word_of_int (trunc0 x)"
  by (auto simp: f32_to_u16_def Let_def)


lemma uint_u16_of_int: "0 \<le> t \<Longrightarrow> t \<le> 65535 \<Longrightarrow> uint (word_of_int t :: u16) = t"
  by (simp add: uint_word_of_int take_bit_int_eq_self)

lemma f32_to_u16_uint: "f32_to_u16 x = Some w \<Longrightarrow> uint w = trunc0 x"
  by (auto simp: f32_to_u16_Some uint_u16_of_int)

lemma MAX_DIVIDER_value: "MAX_DIVIDER = 4095 / 16"
  by code_simp



lemma clamped_divider_ge1: "1 \<le> clamped_divider sys freq"
  by (simp add: clamped_divider_def)

lemma clamped_divider_grid: "\<exists>n. clamped_divider sys freq = of_int n * pow2 (- 23)"
proof (cases "ideal_divider sys freq < 1")
  case True
  have "(1 :: rat) = of_int (2 ^ 23) * pow2 (- 23)"
    by (simp add: pow2_def)
  with True show ?thesis unfolding clamped_divider_def by (simp only: if_True) blast
next
  case False
  then have "pow2 0 \<le> f32_round (f32_of_int (uint sys) / f32_mul (f32_of_int (uint freq)) 65536)"
    by (simp add: ideal_divider_def f32_div_def)
  from f32_round_grid [OF this] False show ?thesis
    by (simp add: clamped_divider_def ideal_divider_def f32_div_def)
qed

text \<open>The fractional part of a value on the grid of step \<open>2 ^ - 23\<close> is computed exactly.\<close>

lemma divider_frac_exact:
  assumes "d = of_int n * pow2 (- 23)" and "0 \<le> d" and "d < 2 ^ 24"
  shows "f32_mul (f32_sub d (f32_of_int \<lfloor>d\<rfloor>)) 16 = (d - of_int \<lfloor>d\<rfloor>) * 16"
proof -
  let ?i = "\<lfloor>d\<rfloor>"
  let ?m = "n - ?i * 2 ^ 23"
  have i0: "0 \<le> ?i" using assms(2) by simp
  have "?i < 2 ^ 24" using assms(3) by (simp add: floor_less_iff)
  with i0 have fi: "f32_of_int ?i = of_int ?i" by (intro f32_of_int_exact) simp
  have p: "pow2 (- 23) * 2 ^ 23 = 1" by (simp add: pow2_def)
  have "of_int ?m * pow2 (- 23) = of_int n * pow2 (- 23) - of_int ?i * (pow2 (- 23) * 2 ^ 23)"
    by (simp add: algebra_simps)
  also have "\<dots> = d - of_int ?i" by (simp only: p assms(1) [symmetric] mult_1_right)
  finally have eq: "d - of_int ?i = of_int ?m * pow2 (- 23)" by simp
  have f0: "0 \<le> d - of_int ?i" and f1: "d - of_int ?i < 1" by linarith+
  have "0 \<le> of_int ?m * pow2 (- 23)" using f0 by (simp only: eq)
  then have "(0 :: rat) \<le> of_int ?m"
    by (simp only: zero_le_mult_iff) (use pow2_pos [of "- 23"] in auto)
  then have m0: "0 \<le> ?m" by (simp only: of_int_0_le_iff)
  have "of_int ?m * pow2 (- 23) < 1" using f1 by (simp only: eq)
  then have "(of_int ?m :: rat) < 2 ^ 23" by (simp add: pow2_def field_simps)
  then have "(of_int ?m :: rat) < of_int (2 ^ 23)" by simp
  then have m1: "?m < 2 ^ 23" by (simp only: of_int_less_iff)
  from m0 m1 have am: "\<bar>?m\<bar> < 2 ^ 24" by simp
  have sub: "f32_sub d (f32_of_int ?i) = d - of_int ?i"
    unfolding f32_sub_def fi by (rule f32_round_exact [OF eq am]) simp
  have eq16: "(d - of_int ?i) * 16 = of_int ?m * pow2 (- 19)"
    by (simp add: eq pow2_def)
  show ?thesis
    unfolding f32_mul_def sub by (rule f32_round_exact [OF eq16 am]) simp
qed

lemma uint_u16_lt: "\<not> 65535 < uint (w :: u16)"
  using uint_bounded [of w] by simp

lemma cast_u16_Some: "f32_to_u16 x = Some w \<Longrightarrow> cast_u16 ovf x = w"
  by (simp add: cast_u16_def)

lemma cast_u16_in_range:
  assumes "0 \<le> x" and "x < 65536"
  shows "cast_u16 ovf x = word_of_int \<lfloor>x\<rfloor>"
proof -
  from assms(1) have t: "trunc0 x = \<lfloor>x\<rfloor>" by (rule trunc0_nonneg)
  from assms(1) have "0 \<le> \<lfloor>x\<rfloor>" by simp
  moreover from assms(2) have "\<lfloor>x\<rfloor> \<le> 65535" by (simp add: floor_le_iff)
  ultimately have "f32_to_u16 x = Some (word_of_int \<lfloor>x\<rfloor>)"
    by (simp add: f32_to_u16_Some t)
  then show ?thesis by (rule cast_u16_Some)
qed



lemma calculate_pwm_params_parts:
  "calculate_pwm_params ovf sys freq =
     (if sys = 0 \<or> f32_mul (f32_of_int (uint freq)) 65536 = 0 \<or>
         MAX_DIVIDER < clamped_divider sys freq
      then None
      else if cast_u16 ovf (f32_sub (wrap_quotient_of ovf sys freq) 1) = 0 then None
      else Some (cast_u16 ovf (f32_sub (wrap_quotient_of ovf sys freq) 1),
                 clk_div_int_of ovf sys freq, clk_div_frac_of ovf sys freq))"
  unfolding calculate_pwm_params_def Let_def wrap_quotient_of_def clk_div_frac_of_def
    clk_div_int_of_def clamped_divider_def [symmetric]
  by (auto simp: uint_u16_lt)

lemma calculate_pwm_params_unfold:
  assumes "sys \<noteq> 0" and "f32_mul (f32_of_int (uint freq)) 65536 \<noteq> 0"
    and "clamped_divider sys freq \<le> MAX_DIVIDER"
  defines "d \<equiv> clamped_divider sys freq"
  defines "di \<equiv> (word_of_int \<lfloor>d\<rfloor> :: u16)"
  defines "df \<equiv> (word_of_int \<lfloor>(d - of_int \<lfloor>d\<rfloor>) * 16\<rfloor> :: u16)"
  shows "calculate_pwm_params ovf sys freq =
           (if cast_u16 ovf (f32_sub (wrap_quotient sys freq di df) 1) = 0 then None
            else Some (cast_u16 ovf (f32_sub (wrap_quotient sys freq di df) 1), di, df))"
    and "clk_div_int_of ovf sys freq = di" and "clk_div_frac_of ovf sys freq = df"
    and "uint di = \<lfloor>d\<rfloor>" and "1 \<le> uint di" and "uint di \<le> 255"
    and "uint df = \<lfloor>(d - of_int \<lfloor>d\<rfloor>) * 16\<rfloor>" and "uint df \<le> 15"
proof -
  have d1: "1 \<le> d" unfolding d_def by (rule clamped_divider_ge1)
  have dmax: "d \<le> 4095 / 16" using assms(3) by (simp add: d_def MAX_DIVIDER_value)
  from clamped_divider_grid obtain n where n: "d = of_int n * pow2 (- 23)"
    unfolding d_def by blast
  let ?i = "\<lfloor>d\<rfloor>"
  have i1: "1 \<le> ?i" using d1 by simp
  have i255: "?i \<le> 255" using dmax by (simp add: floor_le_iff)
  have "cast_u16 ovf d = word_of_int \<lfloor>d\<rfloor>"
  proof (rule cast_u16_in_range)
    show "0 \<le> d" using d1 by simp
    show "d < 65536" using dmax by simp
  qed
  then have ci: "cast_u16 ovf d = di" by (simp only: di_def)
  show udi: "uint di = ?i" using i1 i255 by (simp add: di_def uint_u16_of_int)
  show "1 \<le> uint di" "uint di \<le> 255" using udi i1 i255 by simp_all
  let ?f = "(d - of_int ?i) * 16"
  have fr: "f32_mul (f32_sub d (f32_of_int (uint di))) 16 = ?f"
    unfolding udi using d1 dmax by (intro divider_frac_exact [OF n]) simp_all
  have "0 \<le> d - of_int ?i" "d - of_int ?i < 1" by linarith+
  then have f0: "0 \<le> ?f" and f16: "?f < 16" by simp_all
  have t0: "0 \<le> \<lfloor>?f\<rfloor>" using f0 by simp
  have t15: "\<lfloor>?f\<rfloor> \<le> 15" using f16 by (simp add: floor_le_iff)
  have "cast_u16 ovf ?f = word_of_int \<lfloor>?f\<rfloor>"
  proof (rule cast_u16_in_range)
    show "0 \<le> ?f" by (rule f0)
    show "?f < 65536" using f16 by linarith
  qed
  then have cf: "cast_u16 ovf ?f = df" by (simp only: df_def)
  show udf: "uint df = \<lfloor>?f\<rfloor>" using t0 t15 by (simp add: df_def uint_u16_of_int)
  show "uint df \<le> 15" using udf t15 by simp
  show cdi: "clk_div_int_of ovf sys freq = di"
    by (simp add: clk_div_int_of_def d_def [symmetric] ci)
  have "clk_div_frac_of ovf sys freq = cast_u16 ovf (f32_mul (f32_sub d (f32_of_int (uint di))) 16)"
    by (simp only: clk_div_frac_of_def cdi d_def)
  then show cdf: "clk_div_frac_of ovf sys freq = df" by (simp only: fr cf)
  have nd: "\<not> MAX_DIVIDER < clamped_divider sys freq" using assms(3) by simp
  have "wrap_quotient_of ovf sys freq = wrap_quotient sys freq di df"
    by (simp only: wrap_quotient_of_def cdi cdf)
  with assms(1,2) nd
  show "calculate_pwm_params ovf sys freq =
           (if cast_u16 ovf (f32_sub (wrap_quotient sys freq di df) 1) = 0 then None
            else Some (cast_u16 ovf (f32_sub (wrap_quotient sys freq di df) 1), di, df))"
    by (simp add: calculate_pwm_params_parts cdi cdf)
qed


lemma freq_denominator_zero_iff:
  "f32_mul (f32_of_int (uint (freq :: u32))) 65536 = 0 \<longleftrightarrow> freq = 0"
proof (cases "freq = 0")
  case True
  then show ?thesis by (simp add: f32_mul_def f32_of_int_def)
next
  case False
  then have "1 \<le> uint freq"
    by (metis add.left_neutral linorder_not_less uint_0_iff uint_ge_0 zless_imp_add1_zle order_le_less)
  then have "(1 :: rat) \<le> of_int (uint freq)" by (simp only: of_int_1_le_iff)
  then have "1 \<le> f32_of_int (uint freq)"
    unfolding f32_of_int_def by (intro f32_round_ge) (simp_all add: f32_round_of_int [of 1, simplified])
  then have "(1 :: rat) \<le> f32_of_int (uint freq) * 65536" by simp
  then have "1 \<le> f32_mul (f32_of_int (uint freq)) 65536"
    unfolding f32_mul_def by (intro f32_round_ge) (simp_all add: f32_round_of_int [of 1, simplified])
  with False show ?thesis by simp
qed

lemma calculate_pwm_params_success:
  assumes "calculate_pwm_params ovf sys freq = Some (w, di, df)"
  shows "sys \<noteq> 0" and "freq \<noteq> 0" and "clamped_divider sys freq \<le> MAX_DIVIDER"
proof -
  have "\<not> (sys = 0 \<or> f32_mul (f32_of_int (uint freq)) 65536 = 0 \<or>
        MAX_DIVIDER < clamped_divider sys freq)"
  proof
    assume "sys = 0 \<or> f32_mul (f32_of_int (uint freq)) 65536 = 0 \<or>
        MAX_DIVIDER < clamped_divider sys freq"
    then have "calculate_pwm_params ovf sys freq = None"
      by (simp only: calculate_pwm_params_parts if_True)
    with assms show False by simp
  qed
  then show "sys \<noteq> 0" "freq \<noteq> 0" "clamped_divider sys freq \<le> MAX_DIVIDER"
    by (simp_all add: freq_denominator_zero_iff)
qed

text \<open>
  Claim C5, as amended. \<open>calculate_pwm_params\<close> fails when the system clock is 0. The
  divider is the quotient computed in single precision (clock, product and quotient each
  rounded to 24 significant bits), not the exact quotient; it is raised to 1 when below
  1, and the function fails when it exceeds 255.9375 (which includes the infinite
  quotient of a zero target frequency). On every success, whatever the conversion of the
  wrap value yields, the integer part of the divider lies in \<open>[1, 255]\<close> and the
  fractional part in \<open>[0, 15]\<close>: they are the integer part of the raised divider and the
  integer part of sixteen times its fraction.
\<close>

theorem pwm_divider_range:
  "calculate_pwm_params ovf 0 freq = None \<and>
   (freq = 0 \<longrightarrow> calculate_pwm_params ovf sys freq = None) \<and>
   (sys \<noteq> 0 \<and> freq \<noteq> 0 \<and> 255.9375 < ideal_divider sys freq \<longrightarrow>
      calculate_pwm_params ovf sys freq = None) \<and>
   (\<forall>w di df. calculate_pwm_params ovf sys freq = Some (w, di, df) \<longrightarrow>
      1 \<le> uint di \<and> uint di \<le> 255 \<and> uint df \<le> 15 \<and>
      uint di = \<lfloor>max 1 (ideal_divider sys freq)\<rfloor> \<and>
      uint df = \<lfloor>(max 1 (ideal_divider sys freq) - of_int (uint di)) * 16\<rfloor> \<and>
      (ideal_divider sys freq < 1 \<longrightarrow> di = 1 \<and> df = 0))"
proof (intro conjI allI impI)
  show "calculate_pwm_params ovf 0 freq = None"
    by (simp add: calculate_pwm_params_def)
next
  assume "freq = 0"
  moreover have "f32_mul (f32_of_int 0) 65536 = 0" by (simp add: f32_mul_def f32_of_int_def)
  ultimately show "calculate_pwm_params ovf sys freq = None"
    by (simp add: calculate_pwm_params_def)
next
  assume a: "sys \<noteq> 0 \<and> freq \<noteq> 0 \<and> 255.9375 < ideal_divider sys freq"
  then have "MAX_DIVIDER < ideal_divider sys freq" by (simp add: MAX_DIVIDER_value)
  moreover from this have "\<not> ideal_divider sys freq < 1" by (simp add: MAX_DIVIDER_value)
  ultimately show "calculate_pwm_params ovf sys freq = None"
    using a by (simp add: calculate_pwm_params_def Let_def freq_denominator_zero_iff)
next
  fix w di df
  assume ok: "calculate_pwm_params ovf sys freq = Some (w, di, df)"
  note pre = calculate_pwm_params_success [OF ok]
  from pre(2) have dn: "f32_mul (f32_of_int (uint freq)) 65536 \<noteq> 0"
    by (simp add: freq_denominator_zero_iff)
  note u = calculate_pwm_params_unfold [OF pre(1) dn pre(3)]
  note u1 = u(1) [where ovf = ovf]
  let ?d = "clamped_divider sys freq"
  have cd: "?d = max 1 (ideal_divider sys freq)"
    by (simp add: clamped_divider_def max_def)
  from ok u1 have di: "di = word_of_int \<lfloor>?d\<rfloor>"
    and df: "df = word_of_int \<lfloor>(?d - of_int \<lfloor>?d\<rfloor>) * 16\<rfloor>"
    by (auto split: if_splits)
  from u(4,5,6) di show "1 \<le> uint di" "uint di \<le> 255" by simp_all
  from u(8) df show "uint df \<le> 15" by simp
  from u(4) di cd show idi: "uint di = \<lfloor>max 1 (ideal_divider sys freq)\<rfloor>" by simp
  from u(7) df cd idi
  show "uint df = \<lfloor>(max 1 (ideal_divider sys freq) - of_int (uint di)) * 16\<rfloor>" by simp
  {
    assume lt: "ideal_divider sys freq < 1"
    then have d1: "?d = 1" by (simp add: clamped_divider_def)
    from di d1 show "di = 1" by simp
    from df d1 show "df = 0" by simp
  }
qed

theorem pwm_divider_range_witness:
  "calculate_pwm_params low16 0 50 = None \<and>
   calculate_pwm_params low16 1000000 0 = None \<and>
   (255.9375 :: rat) < ideal_divider 4294967295 50 \<and>
   calculate_pwm_params low16 4294967295 50 = None \<and>
   calculate_pwm_params low16 125000000 50 = Some (36, 38, 2) \<and>
   uint (38 :: u16) = \<lfloor>max 1 (ideal_divider 125000000 50)\<rfloor> \<and>
   uint (2 :: u16) = \<lfloor>(max 1 (ideal_divider 125000000 50) - of_int (uint (38 :: u16))) * 16\<rfloor> \<and>
   ideal_divider 1000000 50 < 1 \<and>
   calculate_pwm_params low16 1000000 50 = Some (19999, 1, 0)"
proof -
  have z: "(0 :: u32) = 0" by simp
  have big: "(4294967295 :: u32) \<noteq> 0 \<and> (50 :: u32) \<noteq> 0 \<and> (255.9375 :: rat) < ideal_divider 4294967295 50"
    by code_simp
  have ok: "calculate_pwm_params low16 125000000 50 = Some (36, 38, 2)" by code_simp
  have ok2: "calculate_pwm_params low16 1000000 50 = Some (19999, 1, 0)" by code_simp
  have lt: "ideal_divider 1000000 50 < 1" by code_simp
  from pwm_divider_range [of low16 50 4294967295] big
  have p1: "calculate_pwm_params low16 0 50 = None"
    "calculate_pwm_params low16 4294967295 50 = None"
    by blast+
  from pwm_divider_range [of low16 0 1000000] z
  have p2: "calculate_pwm_params low16 1000000 0 = None" by blast
  from pwm_divider_range [of low16 50 125000000] ok
  have p3: "uint (38 :: u16) = \<lfloor>max 1 (ideal_divider 125000000 50)\<rfloor>"
    "uint (2 :: u16) = \<lfloor>(max 1 (ideal_divider 125000000 50) - of_int (uint (38 :: u16))) * 16\<rfloor>"
    by blast+
  from p1 p2 p3 big ok ok2 lt show ?thesis by blast
qed

text \<open>
  The claim as stated fails. At a system clock of 838,656,001 Hz and the 50 Hz target the
  quotient \<open>systemClockHz / (targetFrequencyHz * 65536)\<close> is above 255.9375, yet the
  function succeeds, with the divider 255 + 15/16: the clock is first rounded to single
  precision, to 838,656,000.
\<close>

theorem pwm_divider_counterexample:
  "255.9375 < spec_ideal_divider 838656001 50 \<and>
   calculate_pwm_params low16 838656001 50 = Some (65535, 255, 15)"
  by code_simp







text \<open>
  The divider at the usual 125 MHz system clock and the 50 Hz target: its parts are 38
  and 2, and the quotient for the wrap value is 65573.77.
\<close>

lemma divider_at_125MHz:
  "\<lfloor>ideal_divider 125000000 50\<rfloor> = 38 \<and>
   \<lfloor>(ideal_divider 125000000 50 - 38) * 16\<rfloor> = 2 \<and>
   wrap_quotient 125000000 50 38 2 = 8393443 / 128"
  by code_simp



section \<open>The level\<close>

lemma period_us_value: "period_us = 20000"
  by code_simp

lemma f32_of_int_nonneg: "0 \<le> n \<Longrightarrow> 0 \<le> f32_of_int n"
  by (simp add: f32_of_int_def f32_round_nonneg)

lemma f32_of_int_mono: "0 \<le> m \<Longrightarrow> m \<le> n \<Longrightarrow> f32_of_int m \<le> f32_of_int n"
  by (simp add: f32_of_int_def f32_round_mono_nonneg)

lemma pulse_us_nonneg:
  assumes "min_pulse_us sv \<le> max_pulse_us sv"
  shows "0 \<le> pulse_us a sv"
proof -
  from assms have d: "0 \<le> uint (max_pulse_us sv) - uint (min_pulse_us sv)"
    by (simp add: word_le_def)
  have r: "0 \<le> f32_div (f32_of_int (uint a)) 180"
    unfolding f32_div_def by (intro f32_round_nonneg divide_nonneg_nonneg f32_of_int_nonneg) simp_all
  have "0 \<le> f32_mul (f32_div (f32_of_int (uint a)) 180)
                (f32_of_int (uint (max_pulse_us sv) - uint (min_pulse_us sv)))"
    unfolding f32_mul_def by (intro f32_round_nonneg mult_nonneg_nonneg r f32_of_int_nonneg d)
  then show ?thesis
    unfolding pulse_us_def f32_add_def
    by (intro f32_round_nonneg add_nonneg_nonneg f32_of_int_nonneg) simp_all
qed

lemma level_f32_nonneg:
  assumes "min_pulse_us sv \<le> max_pulse_us sv"
  shows "0 \<le> level_f32 a sv"
proof -
  have "0 \<le> f32_div (pulse_us a sv) period_us"
    unfolding f32_div_def period_us_value
    by (intro f32_round_nonneg divide_nonneg_nonneg pulse_us_nonneg [OF assms]) simp
  then show ?thesis
    unfolding level_f32_def f32_mul_def
    by (intro f32_round_nonneg mult_nonneg_nonneg f32_of_int_nonneg) simp_all
qed

lemma pulse_us_mono:
  assumes "min_pulse_us sv \<le> max_pulse_us sv" and "a1 \<le> a2"
  shows "pulse_us a1 sv \<le> pulse_us a2 sv"
proof -
  from assms(1) have d: "0 \<le> uint (max_pulse_us sv) - uint (min_pulse_us sv)"
    by (simp add: word_le_def)
  let ?r = "\<lambda>a. f32_div (f32_of_int (uint a)) 180"
  let ?w = "f32_of_int (uint (max_pulse_us sv) - uint (min_pulse_us sv))"
  from assms(2) have "uint a1 \<le> uint a2" by (simp add: word_le_def)
  then have "f32_of_int (uint a1) \<le> f32_of_int (uint a2)"
    by (intro f32_of_int_mono) simp_all
  then have r: "?r a1 \<le> ?r a2"
    unfolding f32_div_def
    by (intro f32_round_mono_nonneg divide_nonneg_nonneg divide_right_mono f32_of_int_nonneg)
      simp_all
  have r0: "0 \<le> ?r a1"
    unfolding f32_div_def by (intro f32_round_nonneg divide_nonneg_nonneg f32_of_int_nonneg) simp_all
  have w0: "0 \<le> ?w" by (intro f32_of_int_nonneg d)
  have m: "f32_mul (?r a1) ?w \<le> f32_mul (?r a2) ?w"
    unfolding f32_mul_def
    by (intro f32_round_mono_nonneg mult_nonneg_nonneg mult_right_mono r r0 w0)
  have m0: "0 \<le> f32_mul (?r a1) ?w"
    unfolding f32_mul_def by (intro f32_round_nonneg mult_nonneg_nonneg r0 w0)
  show ?thesis
    unfolding pulse_us_def f32_add_def
    by (intro f32_round_mono_nonneg add_nonneg_nonneg add_left_mono m m0 f32_of_int_nonneg) simp
qed

lemma level_f32_mono:
  assumes "min_pulse_us sv \<le> max_pulse_us sv" and "a1 \<le> a2"
  shows "level_f32 a1 sv \<le> level_f32 a2 sv"
proof -
  let ?p = "\<lambda>a. f32_div (pulse_us a sv) period_us"
  have p0: "0 \<le> ?p a1"
    unfolding f32_div_def period_us_value
    by (intro f32_round_nonneg divide_nonneg_nonneg pulse_us_nonneg [OF assms(1)]) simp
  have p: "?p a1 \<le> ?p a2"
    unfolding f32_div_def period_us_value
    by (intro f32_round_mono_nonneg divide_nonneg_nonneg divide_right_mono
        pulse_us_nonneg [OF assms(1)] pulse_us_mono [OF assms]) simp_all
  have w0: "0 \<le> f32_of_int (uint (wrap_val sv) + 1)"
    by (intro f32_of_int_nonneg) simp
  show ?thesis
    unfolding level_f32_def f32_mul_def
    by (intro f32_round_mono_nonneg mult_nonneg_nonneg mult_right_mono p p0 w0)
qed

text \<open>At the ends of the range the pulse width is exactly the calibration bound.\<close>

lemma pulse_us_endpoints:
  assumes "min_pulse_us sv \<le> max_pulse_us sv"
  shows "pulse_us 0 sv = of_int (uint (min_pulse_us sv))"
    and "pulse_us 180 sv = of_int (uint (max_pulse_us sv))"
proof -
  let ?lo = "uint (min_pulse_us sv)" and ?hi = "uint (max_pulse_us sv)"
  have lo: "0 \<le> ?lo" "?lo < 2 ^ 24" and hi: "0 \<le> ?hi" "?hi < 2 ^ 24"
    using uint_bounded [of "min_pulse_us sv"] uint_bounded [of "max_pulse_us sv"] by simp_all
  from assms have d: "0 \<le> ?hi - ?lo" by (simp add: word_le_def)
  have flo: "f32_of_int ?lo = of_int ?lo" using lo by (intro f32_of_int_exact) simp
  have dlt: "\<bar>?hi - ?lo\<bar> < 2 ^ 24" using d lo hi by linarith
  have fd: "f32_of_int (?hi - ?lo) = of_int (?hi - ?lo)"
    by (rule f32_of_int_exact [OF dlt])
  have one: "f32_div (f32_of_int 180) 180 = 1"
    by (simp add: f32_div_def f32_of_int_exact f32_round_of_int [of 1, simplified])
  have zero: "f32_div (f32_of_int 0) 180 = 0"
    by (simp add: f32_div_def f32_of_int_def)
  have "f32_round (of_int ?lo) = of_int ?lo" using lo by (intro f32_round_of_int) simp
  moreover have u0: "uint (0 :: u8) = 0" by simp
  ultimately show "pulse_us 0 sv = of_int ?lo"
    by (simp only: pulse_us_def u0 zero f32_mul_def f32_add_def flo mult_zero_left
        f32_round_0 add_0_right)
  have m: "f32_mul 1 (of_int (?hi - ?lo)) = of_int (?hi - ?lo)"
    unfolding f32_mul_def mult_1 by (rule f32_round_of_int [OF dlt])
  have "of_int ?lo + of_int (?hi - ?lo) = (of_int ?hi :: rat)" by simp
  moreover have "f32_round (of_int ?hi) = of_int ?hi" using hi by (intro f32_round_of_int) simp
  ultimately have "f32_add (of_int ?lo) (of_int (?hi - ?lo)) = of_int ?hi"
    by (simp only: f32_add_def)
  moreover have u180: "uint (180 :: u8) = 180" by simp
  ultimately show "pulse_us 180 sv = of_int ?hi"
    by (simp only: pulse_us_def u180 one flo fd m)
qed

lemma angle_to_level_initialized:
  assumes "is_initialized sv" and "a \<le> 180"
  shows "angle_to_level a (Some sv) =
           (case f32_to_u16 (level_f32 a sv) of
              None \<Rightarrow> None
            | Some level \<Rightarrow> Some (if wrap_val sv < level then wrap_val sv else level))"
  using assms by (simp add: angle_to_level_def Let_def not_less [symmetric])

lemma angle_to_level_in_range:
  assumes "is_initialized sv" and "a \<le> 180"
    and "0 \<le> level_f32 a sv" and "level_f32 a sv < 65536"
  shows "\<exists>l. angle_to_level a (Some sv) = Some l \<and>
             uint l = min (uint (wrap_val sv)) \<lfloor>level_f32 a sv\<rfloor>"
proof -
  let ?t = "\<lfloor>level_f32 a sv\<rfloor>"
  have t0: "0 \<le> ?t" using assms(3) by simp
  have t1: "?t \<le> 65535" using assms(4) by (simp add: floor_le_iff)
  have tr: "trunc0 (level_f32 a sv) = ?t" using assms(3) by (rule trunc0_nonneg)
  have c: "f32_to_u16 (level_f32 a sv) = Some (word_of_int ?t)"
    unfolding f32_to_u16_Some tr by (intro conjI refl t0 t1)
  have u: "uint (word_of_int ?t :: u16) = ?t" using t0 t1 by (rule uint_u16_of_int)
  show ?thesis
    unfolding angle_to_level_initialized [OF assms(1,2)] c
    by (auto simp: u word_less_def)
qed

lemma angle_to_level_le_wrap:
  "angle_to_level a (Some sv) = Some l \<Longrightarrow> is_initialized sv \<Longrightarrow> l \<le> wrap_val sv"
  by (auto simp: angle_to_level_def Let_def split: option.splits if_splits)

text \<open>
  Claim C2, as amended. For a null or uninitialized servo reference \<open>angle_to_level\<close>
  returns 0. An angle above 180 gives the result for 180. For an initialized entry the
  value cast to \<open>uint16_t\<close> is \<open>level_f32\<close>, the single-precision evaluation of
  \<open>pulse_us / period_us * (wrap_val + 1)\<close>; it is non-negative when
  \<open>min_pulse_us \<le> max_pulse_us\<close>, and when it is below 65536 the level returned is its
  integer part (truncation, not rounding), limited to \<open>wrap_val\<close>. A level that is
  returned never exceeds \<open>wrap_val\<close>.
\<close>

theorem angle_to_level_truncated:
  "angle_to_level a None = Some 0 \<and>
   (\<not> is_initialized sv \<longrightarrow> angle_to_level a (Some sv) = Some 0) \<and>
   (180 < a \<longrightarrow> angle_to_level a (Some sv) = angle_to_level 180 (Some sv)) \<and>
   (min_pulse_us sv \<le> max_pulse_us sv \<longrightarrow> 0 \<le> level_f32 a sv) \<and>
   (is_initialized sv \<and> a \<le> 180 \<and> 0 \<le> level_f32 a sv \<and> level_f32 a sv < 65536 \<longrightarrow>
      (\<exists>l. angle_to_level a (Some sv) = Some l \<and>
           uint l = min (uint (wrap_val sv)) \<lfloor>level_f32 a sv\<rfloor>)) \<and>
   (\<forall>l. is_initialized sv \<and> angle_to_level a (Some sv) = Some l \<longrightarrow> l \<le> wrap_val sv)"
proof (intro conjI allI impI)
  show "angle_to_level a None = Some 0" by (simp add: angle_to_level_def)
next
  assume "\<not> is_initialized sv"
  then show "angle_to_level a (Some sv) = Some 0" by (simp add: angle_to_level_def)
next
  assume "180 < a"
  then show "angle_to_level a (Some sv) = angle_to_level 180 (Some sv)"
    by (simp add: angle_to_level_def)
next
  assume "min_pulse_us sv \<le> max_pulse_us sv"
  then show "0 \<le> level_f32 a sv" by (rule level_f32_nonneg)
next
  assume "is_initialized sv \<and> a \<le> 180 \<and> 0 \<le> level_f32 a sv \<and> level_f32 a sv < 65536"
  then show "\<exists>l. angle_to_level a (Some sv) = Some l \<and>
           uint l = min (uint (wrap_val sv)) \<lfloor>level_f32 a sv\<rfloor>"
    using angle_to_level_in_range by blast
next
  fix l assume "is_initialized sv \<and> angle_to_level a (Some sv) = Some l"
  then show "l \<le> wrap_val sv" using angle_to_level_le_wrap by blast
qed

theorem angle_to_level_truncated_witness:
  "angle_to_level 90 None = Some 0 \<and>
   \<not> is_initialized zero_servo \<and>
   angle_to_level 90 (Some zero_servo) = Some 0 \<and>
   (180 :: u8) < 200 \<and>
   angle_to_level 200 (Some (demo_servo 2 19999 1000 2000 True)) =
     angle_to_level 180 (Some (demo_servo 2 19999 1000 2000 True)) \<and>
   min_pulse_us (demo_servo 2 19999 1000 2000 True) \<le> max_pulse_us (demo_servo 2 19999 1000 2000 True) \<and>
   is_initialized (demo_servo 2 19999 1000 2000 True) \<and> (90 :: u8) \<le> 180 \<and>
   0 \<le> level_f32 90 (demo_servo 2 19999 1000 2000 True) \<and>
   level_f32 90 (demo_servo 2 19999 1000 2000 True) < 65536 \<and>
   (\<exists>l. angle_to_level 90 (Some (demo_servo 2 19999 1000 2000 True)) = Some l \<and>
        uint l = min (uint (wrap_val (demo_servo 2 19999 1000 2000 True)))
                     \<lfloor>level_f32 90 (demo_servo 2 19999 1000 2000 True)\<rfloor> \<and>
        l \<le> wrap_val (demo_servo 2 19999 1000 2000 True))"
proof -
  let ?sv = "demo_servo 2 19999 1000 2000 True"
  have z: "\<not> is_initialized zero_servo" by (simp add: zero_servo_def)
  have a: "(180 :: u8) < 200" by simp
  have i: "is_initialized ?sv" "(90 :: u8) \<le> 180" "min_pulse_us ?sv \<le> max_pulse_us ?sv"
    by (simp_all add: demo_servo_def)
  have r: "level_f32 90 ?sv < 65536" by code_simp
  note t = angle_to_level_truncated
  from t [of 90 zero_servo] z
  have p1: "angle_to_level 90 None = Some 0" "angle_to_level 90 (Some zero_servo) = Some 0"
    by blast+
  from t [of 200 ?sv] a
  have p2: "angle_to_level 200 (Some ?sv) = angle_to_level 180 (Some ?sv)" by blast
  from t [of 90 ?sv] i have n: "0 \<le> level_f32 90 ?sv" by blast
  from t [of 90 ?sv] i n r obtain l where
    l: "angle_to_level 90 (Some ?sv) = Some l"
       "uint l = min (uint (wrap_val ?sv)) \<lfloor>level_f32 90 ?sv\<rfloor>" by blast
  from t [of 90 ?sv] i l(1) have "l \<le> wrap_val ?sv" by blast
  with p1 p2 z a i n r l show ?thesis by blast
qed

text \<open>
  The claim as stated fails: with pulse bounds 1000 and 2000, wrap value 19999 and angle 1
  the exact value is 1005.56; the code returns 1005, rounding gives 1006.
\<close>

theorem angle_to_level_counterexample:
  "angle_to_level 1 (Some (demo_servo 2 19999 1000 2000 True)) = Some 1005 \<and>
   spec_level 1 1000 2000 19999 = 1006"
  by code_simp

text \<open>Wherever the level at the larger angle is defined, the function is monotone.\<close>

lemma angle_to_level_mono_defined:
  assumes "is_initialized sv" and "min_pulse_us sv \<le> max_pulse_us sv"
    and "a1 \<le> a2" and "a2 \<le> 180" and "angle_to_level a2 (Some sv) = Some l2"
  shows "\<exists>l1. angle_to_level a1 (Some sv) = Some l1 \<and> l1 \<le> l2"
proof -
  from assms(3,4) have a1: "a1 \<le> 180" by simp
  from assms(5) obtain c2 where c2: "f32_to_u16 (level_f32 a2 sv) = Some c2"
    and l2: "l2 = (if wrap_val sv < c2 then wrap_val sv else c2)"
    unfolding angle_to_level_initialized [OF assms(1,4)] by (auto split: option.splits)
  have n1: "0 \<le> level_f32 a1 sv" and n2: "0 \<le> level_f32 a2 sv"
    by (rule level_f32_nonneg [OF assms(2)])+
  have le: "level_f32 a1 sv \<le> level_f32 a2 sv" by (rule level_f32_mono [OF assms(2,3)])
  from c2 have "\<lfloor>level_f32 a2 sv\<rfloor> \<le> 65535" and u2: "uint c2 = \<lfloor>level_f32 a2 sv\<rfloor>"
    using f32_to_u16_uint [OF c2] by (simp_all add: f32_to_u16_Some trunc0_nonneg [OF n2])
  then have "level_f32 a2 sv < 65536" by (simp add: floor_le_iff)
  with le have lt1: "level_f32 a1 sv < 65536" by simp
  from angle_to_level_in_range [OF assms(1) a1 n1 lt1] obtain l1 where
    l1: "angle_to_level a1 (Some sv) = Some l1"
        "uint l1 = min (uint (wrap_val sv)) \<lfloor>level_f32 a1 sv\<rfloor>" by blast
  have "uint l2 = min (uint (wrap_val sv)) \<lfloor>level_f32 a2 sv\<rfloor>"
    using l2 u2 by (auto simp: word_less_def)
  moreover have "\<lfloor>level_f32 a1 sv\<rfloor> \<le> \<lfloor>level_f32 a2 sv\<rfloor>" using le by (rule floor_mono)
  ultimately have "uint l1 \<le> uint l2" using l1(2) by simp
  then have "l1 \<le> l2" by (simp add: word_le_def)
  with l1(1) show ?thesis by blast
qed

text \<open>
  Claim C7. At a system clock of 2 MHz \<open>servo_init\<close> accepts the pulse bounds 1 and 40000
  and stores the wrap value 39999. For that entry the level at angle 147 is 39999 (the
  value 65333.7, limited to \<open>wrap_val\<close>); at angle 148 the value to cast is 65778.1,
  outside \<open>uint16_t\<close>, so the level has no defined value, and the limit to \<open>wrap_val\<close>,
  applied after the cast, cannot restore the order.
\<close>

theorem angle_to_level_not_monotone:
  "fst (servo_init (demo_hal 2000000) 2 1 40000 boot_state) \<and>
   servo_state (snd (servo_init (demo_hal 2000000) 2 1 40000 boot_state)) ! 0
     = demo_servo 2 39999 1 40000 True \<and>
   angle_to_level 147 (Some (demo_servo 2 39999 1 40000 True)) = Some 39999 \<and>
   level_f32 148 (demo_servo 2 39999 1 40000 True) = 8419601 / 128 \<and>
   angle_to_level 148 (Some (demo_servo 2 39999 1 40000 True)) = None"
  by code_simp

end
